theory Spec2Isabelle
  imports Main "HOL-Library.Word" "HOL-Library.List_Lexorder"
begin

section \<open>JavaScript data: strings, values, objects\<close>

text \<open>
  A JavaScript string is a sequence of UTF-16 code units. The Cyrillic literals of the
  source are written as their code units; ASCII literals go through \<open>ascii\<close>.
\<close>

type_synonym char16 = "16 word"
type_synonym jsstring = "char16 list"

definition ascii :: "string \<Rightarrow> jsstring" where
  "ascii s = map (\<lambda>c. of_nat (of_char c)) s"

text \<open>The characters matched by \<open>\s\<close> and removed by \<open>trim\<close> (WhiteSpace and LineTerminator).\<close>

definition isWhiteSpace :: "char16 \<Rightarrow> bool" where
  "isWhiteSpace c \<longleftrightarrow>
     c \<in> {0x0009, 0x000A, 0x000B, 0x000C, 0x000D, 0x0020, 0x00A0, 0x1680,
          0x2028, 0x2029, 0x202F, 0x205F, 0x3000, 0xFEFF}
     \<or> (0x2000 \<le> c \<and> c \<le> 0x200A)"

definition trim :: "jsstring \<Rightarrow> jsstring" where
  "trim s = rev (dropWhile isWhiteSpace (rev (dropWhile isWhiteSpace s)))"

text \<open>
  \<open>s.split(/\s+/)\<close>: every maximal run of white space is one separator; a separator at
  the start or at the end leaves an empty token there, and the empty string gives one
  empty token.
\<close>

function split_ws :: "jsstring \<Rightarrow> jsstring list" where
  "split_ws [] = [[]]"
| "split_ws (c # cs) =
     (if isWhiteSpace c then [] # split_ws (dropWhile isWhiteSpace cs)
      else (case split_ws cs of t # ts \<Rightarrow> (c # t) # ts | [] \<Rightarrow> [[c]]))"
  by pat_completeness auto
termination
  by (relation "measure length") (auto simp: length_dropWhile_le less_Suc_eq_le)

fun startsWith :: "'a list \<Rightarrow> 'a list \<Rightarrow> bool" where
  "startsWith s [] = True"
| "startsWith [] (p # ps) = False"
| "startsWith (c # cs) (p # ps) = (c = p \<and> startsWith cs ps)"

text \<open>\<open>s.includes(w)\<close>: \<open>w\<close> occurs in \<open>s\<close> as a contiguous substring.\<close>

fun str_includes :: "'a list \<Rightarrow> 'a list \<Rightarrow> bool" where
  "str_includes [] w = (w = [])"
| "str_includes (c # cs) w = (startsWith (c # cs) w \<or> str_includes cs w)"

text \<open>\<open>xs.join(sep)\<close> on an array of strings.\<close>

fun join :: "jsstring \<Rightarrow> jsstring list \<Rightarrow> jsstring" where
  "join sep [] = []"
| "join sep [x] = x"
| "join sep (x # y # ys) = x @ sep @ join sep (y # ys)"

text \<open>\<open>s.replace(/"/g, '""')\<close>: every double quote is doubled.\<close>

definition double_quotes :: "jsstring \<Rightarrow> jsstring" where
  "double_quotes s = concat (map (\<lambda>c. if c = 0x22 then [0x22, 0x22] else [c]) s)"

definition quoted :: "jsstring \<Rightarrow> jsstring" where
  "quoted s = [0x22] @ double_quotes s @ [0x22]"

text \<open>
  Values. Numbers are the integers the program computes (counters). An object is the
  list of its own enumerable properties in the order \<open>Object.keys\<close> reports them. A
  built-in function is given by its name.
\<close>

datatype jsvalue =
    Undefined
  | Null
  | Bool bool
  | Num int
  | Str jsstring
  | Arr "jsvalue list"
  | Obj "(jsstring \<times> jsvalue) list"
  | Function jsstring

type_synonym jsobject = "(jsstring \<times> jsvalue) list"

fun truthy :: "jsvalue \<Rightarrow> bool" where
  "truthy Undefined = False"
| "truthy Null = False"
| "truthy (Bool b) = b"
| "truthy (Num n) = (n \<noteq> 0)"
| "truthy (Str s) = (s \<noteq> [])"
| "truthy (Arr xs) = True"
| "truthy (Obj ps) = True"
| "truthy (Function name) = True"

text \<open>The own property \<open>k\<close> of an object, \<open>undefined\<close> when it has none.\<close>

fun obj_get :: "jsobject \<Rightarrow> jsstring \<Rightarrow> jsvalue" where
  "obj_get [] k = Undefined"
| "obj_get ((k', v) # ps) k = (if k' = k then v else obj_get ps k)"

text \<open>Assignment \<open>o[k] = v\<close>: an existing key keeps its place, a new key goes last.\<close>

fun obj_set :: "jsobject \<Rightarrow> jsstring \<Rightarrow> jsvalue \<Rightarrow> jsobject" where
  "obj_set [] k v = [(k, v)]"
| "obj_set ((k', v') # ps) k v =
     (if k' = k then (k', v) # ps else (k', v') # obj_set ps k v)"

definition obj_keys :: "jsobject \<Rightarrow> jsstring list" where
  "obj_keys ob = map fst ob"

definition obj_values :: "jsobject \<Rightarrow> jsvalue list" where
  "obj_values ob = map snd ob"

definition has_key :: "jsobject \<Rightarrow> jsstring \<Rightarrow> bool" where
  "has_key ob k \<longleftrightarrow> k \<in> set (obj_keys ob)"

text \<open>
  The records of both parsers are made by object literals, so their prototype is
  \<open>Object.prototype\<close>. Its properties are not enumerable: \<open>Object.keys\<close> and
  \<open>JSON.stringify\<close> do not see them, a property read does. All of them are functions
  but \<open>__proto__\<close>, which reads as \<open>Object.prototype\<close> itself, an object with no
  enumerable property.
\<close>

definition Object_prototype :: jsobject where
  "Object_prototype =
     [(ascii ''constructor'', Function (ascii ''Object'')),
      (ascii ''__defineGetter__'', Function (ascii ''__defineGetter__'')),
      (ascii ''__defineSetter__'', Function (ascii ''__defineSetter__'')),
      (ascii ''hasOwnProperty'', Function (ascii ''hasOwnProperty'')),
      (ascii ''__lookupGetter__'', Function (ascii ''__lookupGetter__'')),
      (ascii ''__lookupSetter__'', Function (ascii ''__lookupSetter__'')),
      (ascii ''isPrototypeOf'', Function (ascii ''isPrototypeOf'')),
      (ascii ''propertyIsEnumerable'', Function (ascii ''propertyIsEnumerable'')),
      (ascii ''toString'', Function (ascii ''toString'')),
      (ascii ''valueOf'', Function (ascii ''valueOf'')),
      (ascii ''__proto__'', Obj []),
      (ascii ''toLocaleString'', Function (ascii ''toLocaleString''))]"

text \<open>
  The property read \<open>o[k]\<close> with a computed key on such an object: the own property,
  otherwise the one inherited from \<open>Object.prototype\<close>, otherwise \<open>undefined\<close>. Where
  the source reads a property by a literal name (\<open>a.sentiment\<close>, \<open>error.message\<close>), the
  name is none of \<open>Object.prototype\<close> and the read is \<open>obj_get\<close>.
\<close>

definition obj_read :: "jsobject \<Rightarrow> jsstring \<Rightarrow> jsvalue" where
  "obj_read ob k = (if has_key ob k then obj_get ob k else obj_get Object_prototype k)"

text \<open>
  An object literal \<open>{...a, ...b, k: v}\<close> starts from the empty object and assigns the
  properties from left to right.
\<close>

definition assign :: "jsobject \<Rightarrow> jsobject \<Rightarrow> jsobject" where
  "assign target source = foldl (\<lambda>ob (k, v). obj_set ob k v) target source"

text \<open>\<open>v.k\<close> on a value that is not \<open>null\<close> or \<open>undefined\<close>.\<close>

fun get_prop :: "jsvalue \<Rightarrow> jsstring \<Rightarrow> jsvalue" where
  "get_prop (Obj ps) k = obj_get ps k"
| "get_prop v k = Undefined"

text \<open>\<open>xs.slice(0, n)\<close>: a negative \<open>n\<close> counts from the end.\<close>

definition slice0 :: "int \<Rightarrow> 'a list \<Rightarrow> 'a list" where
  "slice0 n xs = (if n < 0 then take (nat (int (length xs) + n)) xs else take (nat n) xs)"

text \<open>
  A \<open>Map\<close> built from entries: \<open>set\<close> on a key that is present replaces the value and
  keeps the key's place in the iteration order; \<open>values()\<close> follows that order.
\<close>

fun Map_set :: "('k \<times> 'v) list \<Rightarrow> 'k \<Rightarrow> 'v \<Rightarrow> ('k \<times> 'v) list" where
  "Map_set [] k v = [(k, v)]"
| "Map_set ((k', v') # m) k v =
     (if k' = k then (k', v) # m else (k', v') # Map_set m k v)"

definition new_Map :: "('k \<times> 'v) list \<Rightarrow> ('k \<times> 'v) list" where
  "new_Map entries = foldl (\<lambda>m (k, v). Map_set m k v) [] entries"

definition Map_values :: "('k \<times> 'v) list \<Rightarrow> 'v list" where
  "Map_values m = map snd m"

text \<open>A \<open>Set\<close>: \<open>add\<close> of a member changes nothing, a new member goes last.\<close>

definition Set_add :: "'a list \<Rightarrow> 'a \<Rightarrow> 'a list" where
  "Set_add s x = (if x \<in> set s then s else s @ [x])"


section \<open>The RBC parser\<close>

subsection \<open>Configuration\<close>

definition config_maxArticles :: int where "config_maxArticles = 10"
definition config_maxRetries :: int where "config_maxRetries = 3"
definition config_retryDelay :: int where "config_retryDelay = 1000"

text \<open>The default author, the site's name in Cyrillic.\<close>

definition RBK :: jsstring where
  "RBK = [0x420, 0x411, 0x41A]"

subsection \<open>tryWithRetry\<close>

text \<open>
  \<open>fn\<close> is given by the outcome of each of its invocations: \<open>fn k\<close> is what the
  invocation made in attempt \<open>k\<close> (counted from 1) does, \<open>Inr v\<close> when it returns \<open>v\<close>
  and \<open>Inl e\<close> when it throws \<open>e\<close>. The function returns its result with the trace of
  what it did: the invocations of \<open>fn\<close> and the delays it waited, in order.
  \<open>lastError\<close> starts \<open>undefined\<close>.
\<close>

datatype event = Invoke nat | Delay int

fun retry_loop ::
  "(nat \<Rightarrow> jsvalue + 'a) \<Rightarrow> int \<Rightarrow> nat \<Rightarrow> nat \<Rightarrow> jsvalue \<Rightarrow> (jsvalue + 'a) \<times> event list"
where
  "retry_loop fn retryDelay attempt 0 lastError = (Inl lastError, [])"
| "retry_loop fn retryDelay attempt (Suc remaining) lastError =
     (case fn attempt of
        Inr v \<Rightarrow> (Inr v, [Invoke attempt])
      | Inl error \<Rightarrow>
          (let (r, tr) = retry_loop fn retryDelay (Suc attempt) remaining error
           in (r, Invoke attempt # Delay retryDelay # tr)))"

definition tryWithRetry ::
  "(nat \<Rightarrow> jsvalue + 'a) \<Rightarrow> int \<Rightarrow> int \<Rightarrow> (jsvalue + 'a) \<times> event list"
where
  "tryWithRetry fn maxRetries retryDelay =
     retry_loop fn retryDelay 1 (nat maxRetries) Undefined"

definition invocations :: "event list \<Rightarrow> nat" where
  "invocations tr = length (filter (\<lambda>ev. case ev of Invoke k \<Rightarrow> True | Delay d \<Rightarrow> False) tr)"

definition delays :: "event list \<Rightarrow> int list" where
  "delays tr = concat (map (\<lambda>ev. case ev of Invoke k \<Rightarrow> [] | Delay d \<Rightarrow> [d]) tr)"

subsection \<open>getCategory\<close>

definition getCategory :: "jsstring \<Rightarrow> jsstring" where
  "getCategory u =
     (if str_includes u (ascii ''/politics/'') then
        [0x41F, 0x43E, 0x43B, 0x438, 0x442, 0x438, 0x43A, 0x430]
      else if str_includes u (ascii ''/economics/'') then
        [0x42D, 0x43A, 0x43E, 0x43D, 0x43E, 0x43C, 0x438, 0x43A, 0x430]
      else if str_includes u (ascii ''/society/'') then
        [0x41E, 0x431, 0x449, 0x435, 0x441, 0x442, 0x432, 0x43E]
      else if str_includes u (ascii ''/rbcfreenews/'') then
        [0x421, 0x440, 0x43E, 0x447, 0x43D, 0x44B, 0x435, 0x20,
         0x43D, 0x43E, 0x432, 0x43E, 0x441, 0x442, 0x438]
      else [0x41D, 0x43E, 0x432, 0x43E, 0x441, 0x442, 0x438])"

subsection \<open>getTextSentiment\<close>

definition positiveWords :: "jsstring list" where
  "positiveWords =
     [[0x440, 0x43E, 0x441, 0x442],
      [0x443, 0x441, 0x43F, 0x435, 0x445],
      [0x43F, 0x43E, 0x434, 0x44A, 0x435, 0x43C],
      [0x43F, 0x43E, 0x43B, 0x43E, 0x436, 0x438, 0x442, 0x435, 0x43B, 0x44C, 0x43D, 0x44B, 0x439],
      [0x445, 0x43E, 0x440, 0x43E, 0x448, 0x438, 0x439],
      [0x432, 0x44B, 0x433, 0x43E, 0x434],
      [0x440, 0x430, 0x437, 0x432, 0x438, 0x442, 0x438]]"

definition negativeWords :: "jsstring list" where
  "negativeWords =
     [[0x43F, 0x430, 0x434, 0x435, 0x43D, 0x438, 0x435],
      [0x441, 0x43D, 0x438, 0x436, 0x435, 0x43D, 0x438, 0x435],
      [0x43A, 0x440, 0x438, 0x437, 0x438, 0x441],
      [0x43F, 0x440, 0x43E, 0x431, 0x43B, 0x435, 0x43C, 0x430],
      [0x43A, 0x43E, 0x43D, 0x444, 0x43B, 0x438, 0x43A, 0x442],
      [0x441, 0x43F, 0x430, 0x434],
      [0x440, 0x438, 0x441, 0x43A]]"

text \<open>The body of the \<open>forEach\<close>: one word updates the two scores.\<close>

definition score_word :: "int \<times> int \<Rightarrow> jsstring \<Rightarrow> int \<times> int" where
  "score_word sc word =
     (let positiveScore = (if list_ex (\<lambda>w. str_includes word w) positiveWords
                           then fst sc + 1 else fst sc);
          negativeScore = (if list_ex (\<lambda>w. str_includes word w) negativeWords
                           then snd sc + 1 else snd sc)
      in (positiveScore, negativeScore))"

text \<open>
  \<open>toLowerCase\<close> is the built-in \<open>String.prototype.toLowerCase\<close>, a parameter of the
  model.
\<close>

definition getTextSentiment :: "(jsstring \<Rightarrow> jsstring) \<Rightarrow> jsstring \<Rightarrow> jsobject" where
  "getTextSentiment toLowerCase text =
     (let wrds = split_ws (toLowerCase text);
          (positiveScore, negativeScore) = foldl score_word (0, 0) wrds
      in [(ascii ''positive'', Num positiveScore),
          (ascii ''negative'', Num negativeScore),
          (ascii ''neutral'', Num (int (length wrds) - positiveScore - negativeScore)),
          (ascii ''sentiment'',
             Str (if positiveScore > negativeScore then ascii ''positive''
                  else if negativeScore > positiveScore then ascii ''negative''
                  else ascii ''neutral''))])"

text \<open>
  \<open>toLowerCase\<close> on the Basic Latin and Cyrillic blocks, where it works code unit by code
  unit: the instance of the built-in used to run the model on concrete texts.
\<close>

definition lower_unit :: "char16 \<Rightarrow> char16" where
  "lower_unit c =
     (if 0x41 \<le> c \<and> c \<le> 0x5A then c + 0x20
      else if 0x410 \<le> c \<and> c \<le> 0x42F then c + 0x20
      else if 0x400 \<le> c \<and> c \<le> 0x40F then c + 0x50
      else c)"

definition toLowerCase_cyr :: "jsstring \<Rightarrow> jsstring" where
  "toLowerCase_cyr s = map lower_unit s"


subsection \<open>The detail fetch of one article\<close>

text \<open>
  What the extraction function evaluated in the article's page observes of the document:
  the \<open>innerText\<close> of the first element matching each selector (\<open>None\<close> when no element
  matches), the texts of the tag elements, the \<open>datetime\<close> attribute and text of the
  date element, the \<open>src\<close> of the image element, and whether a video element exists.
\<close>

record date_element =
  datetime :: "jsstring option"
  date_text :: jsstring

record article_document =
  contentElement :: "jsstring option"
  authorElement :: "jsstring option"
  tagElements :: "jsstring list"
  dateElement :: "date_element option"
  imageElement :: "jsstring option"
  videoElement :: bool

definition getElementText :: "date_element option \<Rightarrow> jsstring" where
  "getElementText element = (case element of Some el \<Rightarrow> trim (date_text el) | None \<Rightarrow> [])"

definition getElementAttr :: "date_element option \<Rightarrow> jsstring" where
  "getElementAttr element =
     (case element of
        Some el \<Rightarrow>
          (case datetime el of
             Some a \<Rightarrow> (if a \<noteq> [] then a else trim (date_text el))
           | None \<Rightarrow> trim (date_text el))
      | None \<Rightarrow> [])"

definition detailsContent :: "article_document \<Rightarrow> jsstring" where
  "detailsContent doc = (case contentElement doc of Some t \<Rightarrow> trim t | None \<Rightarrow> [])"

definition extractDetails :: "article_document \<Rightarrow> jsobject" where
  "extractDetails doc =
     (let content = detailsContent doc;
          author = (case authorElement doc of Some t \<Rightarrow> trim t | None \<Rightarrow> RBK);
          tags = map (\<lambda>t. Str (trim t)) (tagElements doc);
          publishedAt = (if getElementAttr (dateElement doc) \<noteq> []
                         then getElementAttr (dateElement doc)
                         else getElementText (dateElement doc));
          imageUrl = (case imageElement doc of Some s \<Rightarrow> s | None \<Rightarrow> []);
          hasVideo = videoElement doc
      in [(ascii ''content'', Str content),
          (ascii ''author'', Str author),
          (ascii ''tags'', Arr tags),
          (ascii ''publishedAt'', Str publishedAt),
          (ascii ''imageUrl'', Str imageUrl),
          (ascii ''hasVideo'', Bool hasVideo)])"

text \<open>A listing entry, as the listing's extraction function builds it.\<close>

record stub =
  title :: jsstring
  url :: jsstring

definition stub_object :: "stub \<Rightarrow> jsobject" where
  "stub_object article = [(ascii ''title'', Str (title article)), (ascii ''url'', Str (url article))]"

text \<open>
  The render client, as one article's task meets it. \<open>None\<close> is a call that completes,
  \<open>Some e\<close> one that throws \<open>e\<close>.
  \<^item> \<open>page_setup\<close>: opening and configuring the article's page, before the \<open>try\<close>;
  \<^item> \<open>goto_attempt k\<close>: the navigation made in attempt \<open>k\<close> of the retry loop;
  \<^item> \<open>page_result\<close>: the rest of the \<open>try\<close> block up to the progress update (waiting
    for the content selector, whose failure is caught on the spot, the debug copy of the
    first three pages, the extraction, closing the page): the exception it throws or
    the document the extraction saw;
  \<^item> \<open>handler_close\<close>: closing the page in the \<open>catch\<close> block;
  \<^item> \<open>now\<close>: the time stamp \<open>new Date().toISOString()\<close>.
\<close>

record page_env =
  page_setup :: "jsvalue option"
  goto_attempt :: "nat \<Rightarrow> jsvalue option"
  page_result :: "jsvalue + article_document"
  handler_close :: "jsvalue option"
  now :: jsstring

definition TypeError :: jsvalue where
  "TypeError = Obj [(ascii ''name'', Str (ascii ''TypeError''))]"

text \<open>
  \<open>logError\<close> reads \<open>error.message\<close>, which throws a TypeError when \<open>error\<close> is
  \<open>null\<close> or \<open>undefined\<close>; the append to the log file is outside the model.
\<close>

definition logError :: "jsvalue \<Rightarrow> jsvalue option" where
  "logError error = (if error = Undefined \<or> error = Null then Some TypeError else None)"

definition detailedArticle ::
  "(jsstring \<Rightarrow> jsstring) \<Rightarrow> stub \<Rightarrow> article_document \<Rightarrow> jsstring \<Rightarrow> jsobject"
where
  "detailedArticle toLowerCase article doc parsedAt =
     (let details = extractDetails doc;
          category = getCategory (url article);
          sentiment = getTextSentiment toLowerCase (detailsContent doc)
      in assign (assign (assign [] (stub_object article)) details)
           [(ascii ''category'', Str category),
            (ascii ''sentiment'', Obj sentiment),
            (ascii ''parsedAt'', Str parsedAt)])"

definition degradedArticle :: "stub \<Rightarrow> jsvalue \<Rightarrow> jsstring \<Rightarrow> jsobject" where
  "degradedArticle article error parsedAt =
     assign (assign [] (stub_object article))
       [(ascii ''category'', Str (getCategory (url article))),
        (ascii ''content'', Str []),
        (ascii ''author'', Str RBK),
        (ascii ''tags'', Arr []),
        (ascii ''hasVideo'', Bool False),
        (ascii ''parsedAt'', Str parsedAt),
        (ascii ''error'', get_prop error (ascii ''message''))]"

text \<open>The \<open>catch\<close> block of the task: \<open>Inl\<close> when the block itself throws.\<close>

definition onError :: "page_env \<Rightarrow> stub \<Rightarrow> jsvalue \<Rightarrow> jsvalue + jsobject" where
  "onError env article error =
     (case handler_close env of
        Some e \<Rightarrow> Inl e
      | None \<Rightarrow>
          (case logError error of
             Some e \<Rightarrow> Inl e
           | None \<Rightarrow> Inr (degradedArticle article error (now env))))"

text \<open>
  The task of one article (the callback of \<open>limitedArticles.map\<close>): \<open>Inr\<close> is the record
  its promise resolves to, \<open>Inl\<close> the value it rejects with.
\<close>

definition processArticle ::
  "(jsstring \<Rightarrow> jsstring) \<Rightarrow> page_env \<Rightarrow> stub \<Rightarrow> jsvalue + jsobject"
where
  "processArticle toLowerCase env article =
     (case page_setup env of
        Some e \<Rightarrow> Inl e
      | None \<Rightarrow>
          (case fst (tryWithRetry (\<lambda>k. case goto_attempt env k of Some e \<Rightarrow> Inl e | None \<Rightarrow> Inr ())
                       config_maxRetries config_retryDelay) of
             Inl error \<Rightarrow> onError env article error
           | Inr _ \<Rightarrow>
               (case page_result env of
                  Inl error \<Rightarrow> onError env article error
                | Inr doc \<Rightarrow>
                    Inr (detailedArticle toLowerCase article doc (now env)))))"

subsection \<open>Promise.all\<close>

text \<open>
  The tasks run concurrently and settle in some order, given as the list of their
  indices. \<open>Promise.all\<close> stores the value of task \<open>i\<close> in slot \<open>i\<close> of its result
  array, rejects with the first rejection, and resolves when every slot is filled;
  \<open>None\<close> is a promise that never settles.
\<close>

fun settle :: "(jsvalue + 'a) list \<Rightarrow> nat list \<Rightarrow> 'a option list \<Rightarrow> jsvalue + 'a option list" where
  "settle outcomes [] vals = Inr vals"
| "settle outcomes (i # order) vals =
     (if i < length outcomes then
        (case outcomes ! i of
           Inl e \<Rightarrow> Inl e
         | Inr v \<Rightarrow> settle outcomes order (vals[i := Some v]))
      else settle outcomes order vals)"

definition Promise_all :: "(jsvalue + 'a) list \<Rightarrow> nat list \<Rightarrow> (jsvalue + 'a list) option" where
  "Promise_all outcomes order =
     (case settle outcomes order (replicate (length outcomes) None) of
        Inl e \<Rightarrow> Some (Inl e)
      | Inr vals \<Rightarrow>
          (if list_all (\<lambda>v. v \<noteq> None) vals then Some (Inr (map the vals)) else None))"

subsection \<open>parseRBCWebsite\<close>

text \<open>
  The render client for a whole run, after the browser is launched:
  \<^item> \<open>listing_goto k\<close>: the navigation to the listing in attempt \<open>k\<close>;
  \<^item> \<open>listing_result\<close>: the statements between the navigation and the deduplication:
    the exception they throw, or the \<open>innerText\<close> and \<open>href\<close> of every element that
    matches the article-link selector, in document order;
  \<^item> \<open>pages i\<close>: the page of the task of index \<open>i\<close>;
  \<^item> \<open>completion\<close>: the order in which the tasks settle;
  \<^item> \<open>browser_close\<close>: closing the browser in the \<open>finally\<close> block.
\<close>

record site_env =
  listing_goto :: "nat \<Rightarrow> jsvalue option"
  listing_result :: "jsvalue + (jsstring \<times> jsstring) list"
  pages :: "nat \<Rightarrow> page_env"
  completion :: "nat list"
  browser_close :: "jsvalue option"

definition listArticles :: "(jsstring \<times> jsstring) list \<Rightarrow> stub list" where
  "listArticles articleElements =
     filter (\<lambda>article. title article \<noteq> [] \<and> url article \<noteq> [])
       (map (\<lambda>(innerText, href). \<lparr>title = trim innerText, url = href\<rparr>) articleElements)"

definition uniqueArticles :: "stub list \<Rightarrow> stub list" where
  "uniqueArticles articles = Map_values (new_Map (map (\<lambda>item. (url item, item)) articles))"

definition limitedArticles :: "int \<Rightarrow> (jsstring \<times> jsstring) list \<Rightarrow> stub list" where
  "limitedArticles maxArticles articleElements =
     slice0 maxArticles (uniqueArticles (listArticles articleElements))"

definition detailedArticlesPromises ::
  "(jsstring \<Rightarrow> jsstring) \<Rightarrow> (nat \<Rightarrow> page_env) \<Rightarrow> stub list \<Rightarrow> (jsvalue + jsobject) list"
where
  "detailedArticlesPromises toLowerCase pgs articles =
     map (\<lambda>(article, index). processArticle toLowerCase (pgs index) article)
       (zip articles [0..<length articles])"

text \<open>
  The \<open>try\<close> block of \<open>parseRBCWebsite\<close>. The progress bar, the console and the
  files written on the way (the debug copies, the report of the records without content)
  are outside the model.
\<close>

definition parseRBC_try ::
  "(jsstring \<Rightarrow> jsstring) \<Rightarrow> site_env \<Rightarrow> int \<Rightarrow> (jsvalue + jsobject list) option"
where
  "parseRBC_try toLowerCase env maxArticles =
     (case fst (tryWithRetry (\<lambda>k. case listing_goto env k of Some e \<Rightarrow> Inl e | None \<Rightarrow> Inr ())
                  config_maxRetries config_retryDelay) of
        Inl e \<Rightarrow> Some (Inl e)
      | Inr _ \<Rightarrow>
          (case listing_result env of
             Inl e \<Rightarrow> Some (Inl e)
           | Inr articleElements \<Rightarrow>
               Promise_all
                 (detailedArticlesPromises toLowerCase (pages env)
                    (limitedArticles maxArticles articleElements))
                 (completion env)))"

text \<open>
  With its \<open>catch\<close> (log the error, return the empty array) and its \<open>finally\<close> (close
  the browser): \<open>Some (Inr records)\<close> is a run that returns \<open>records\<close>,
  \<open>Some (Inl e)\<close> one that throws \<open>e\<close> to its caller, \<open>None\<close> one that never returns.
\<close>

definition parseRBCWebsite ::
  "(jsstring \<Rightarrow> jsstring) \<Rightarrow> site_env \<Rightarrow> int \<Rightarrow> (jsvalue + jsobject list) option"
where
  "parseRBCWebsite toLowerCase env maxArticles =
     (case parseRBC_try toLowerCase env maxArticles of
        None \<Rightarrow> None
      | Some r \<Rightarrow>
          (let caught = (case r of
                           Inr detailedArticles \<Rightarrow> Inr detailedArticles
                         | Inl error \<Rightarrow>
                             (case logError error of Some e \<Rightarrow> Inl e | None \<Rightarrow> Inr []))
           in (case browser_close env of Some e \<Rightarrow> Some (Inl e) | None \<Rightarrow> Some caught)))"

subsection \<open>The sentiment statistics of runParser\<close>

definition sentimentCount :: "jsobject list \<Rightarrow> jsstring \<Rightarrow> int" where
  "sentimentCount articles label =
     int (length (filter (\<lambda>a. truthy (obj_get a (ascii ''sentiment'')) \<and>
                             get_prop (obj_get a (ascii ''sentiment'')) (ascii ''sentiment'') = Str label)
                    articles))"

definition sentimentStats :: "jsobject list \<Rightarrow> jsobject" where
  "sentimentStats articles =
     [(ascii ''positive'', Num (sentimentCount articles (ascii ''positive''))),
      (ascii ''negative'', Num (sentimentCount articles (ascii ''negative''))),
      (ascii ''neutral'', Num (sentimentCount articles (ascii ''neutral'')))]"

definition totalArticles :: "jsobject list \<Rightarrow> int" where
  "totalArticles articles = int (length articles)"


subsection \<open>saveToJson and saveToCsv\<close>

text \<open>
  The file system is a map from file names to contents, the console a list of lines:
  the report that a file was saved, the reports of the serializers that there is no
  data, and the reports of the Meduza parser's \<open>main\<close> that a page gave no article
  or that an exception reached it. \<open>JSON.stringify\<close> (indented for the JSON file,
  compact inside a CSV cell) and the conversion \<open>String\<close> are built-ins, parameters
  of the model.
\<close>

datatype console_line =
    Saved jsstring
  | No_data_JSON
  | No_data_CSV
  | Not_found_main_page
  | Not_found_news_page
  | Main_error jsvalue

record io =
  files :: "jsstring \<rightharpoonup> jsstring"
  console :: "console_line list"

definition writeFileSync :: "jsstring \<Rightarrow> jsstring \<Rightarrow> io \<Rightarrow> io" where
  "writeFileSync filename text w = w\<lparr>files := (files w)(filename \<mapsto> text)\<rparr>"

definition console_out :: "console_line \<Rightarrow> io \<Rightarrow> io" where
  "console_out line w = w\<lparr>console := console w @ [line]\<rparr>"

definition saveToJson ::
  "(jsvalue \<Rightarrow> jsstring) \<Rightarrow> jsobject list \<Rightarrow> jsstring \<Rightarrow> io \<Rightarrow> io"
where
  "saveToJson stringify2 data filename w =
     (if data = [] then console_out No_data_JSON w
      else console_out (Saved filename)
             (writeFileSync filename (stringify2 (Arr (map Obj data))) w))"

definition allKeys :: "jsobject list \<Rightarrow> jsstring list" where
  "allKeys data = foldl (\<lambda>s item. foldl Set_add s (obj_keys item)) [] data"

text \<open>\<open>xs.join(sep)\<close> on an array of values: \<open>null\<close> and \<open>undefined\<close> give the empty string.\<close>

definition array_join :: "(jsvalue \<Rightarrow> jsstring) \<Rightarrow> jsstring \<Rightarrow> jsvalue list \<Rightarrow> jsstring" where
  "array_join String sep xs =
     join sep (map (\<lambda>x. if x = Undefined \<or> x = Null then [] else String x) xs)"

definition csv_cell :: "(jsvalue \<Rightarrow> jsstring) \<Rightarrow> (jsvalue \<Rightarrow> jsstring) \<Rightarrow> jsvalue \<Rightarrow> jsstring" where
  "csv_cell stringify String v =
     (if v = Undefined \<or> v = Null then [0x22, 0x22]
      else (case v of
              Obj ps \<Rightarrow> quoted (stringify v)
            | Arr xs \<Rightarrow> quoted (array_join String (ascii ''; '') xs)
            | _ \<Rightarrow> quoted (String v)))"

definition csv_row ::
  "(jsvalue \<Rightarrow> jsstring) \<Rightarrow> (jsvalue \<Rightarrow> jsstring) \<Rightarrow> jsstring list \<Rightarrow> jsobject \<Rightarrow> jsstring"
where
  "csv_row stringify String headers item =
     join (ascii '','') (map (\<lambda>header. csv_cell stringify String (obj_read item header)) headers)"

definition csvContent ::
  "(jsvalue \<Rightarrow> jsstring) \<Rightarrow> (jsvalue \<Rightarrow> jsstring) \<Rightarrow> jsobject list \<Rightarrow> jsstring"
where
  "csvContent stringify String data =
     (let headers = allKeys data;
          rows = map (csv_row stringify String headers) data
      in join [0x0A] (join (ascii '','') headers # rows))"

definition saveToCsv ::
  "(jsvalue \<Rightarrow> jsstring) \<Rightarrow> (jsvalue \<Rightarrow> jsstring) \<Rightarrow> jsobject list \<Rightarrow> jsstring \<Rightarrow> io \<Rightarrow> io"
where
  "saveToCsv stringify String data filename w =
     (if data = [] then console_out No_data_CSV w
      else console_out (Saved filename)
             (writeFileSync filename (0xFEFF # csvContent stringify String data) w))"


section \<open>The Meduza parser\<close>

subsection \<open>The listing\<close>

text \<open>
  What the extraction function observes of the listing's document. An element matched by
  one of the selectors is seen through the queries made on it: its title element, its
  first link, the link found by \<open>closest\<close>, and the texts of its category, date and
  summary elements and its image. A link of the fallback path is seen through its text,
  its \<open>href\<close> and, when it has a parent, the parent's category element and image.
\<close>

record dom_node =
  innerText :: jsstring
  href :: "jsstring option"

record dom_image =
  src :: "jsstring option"
  data_src :: "jsstring option"

record news_element =
  el_title :: "dom_node option"
  el_link :: "dom_node option"
  el_closest :: "dom_node option"
  el_category :: "jsstring option"
  el_date :: "jsstring option"
  el_image :: "dom_image option"
  el_summary :: "jsstring option"

record link_parent =
  parent_category :: "jsstring option"
  parent_image :: "dom_image option"

record news_link =
  link_text :: jsstring
  link_href :: jsstring
  parentElement :: "link_parent option"

text \<open>
  \<open>querySelectorAll\<close> gives the elements matching a selector; \<open>possibleContainers\<close>
  lists, for each container element in document order, the news links inside it.
\<close>

record listing_document =
  querySelectorAll :: "string \<Rightarrow> news_element list"
  possibleContainers :: "news_link list list"

record article = stub +
  category :: jsstring
  date :: "jsstring option"
  imageUrl :: jsstring
  summary :: "jsstring option"

definition selectors :: "string list" where
  \<open>selectors =
     [''.NewsBlock-first'', ''.NewsBlock'', ''.NewsCard'', ''.SimpleBlock'',
      ''[data-testid="news-tape-item"]'']\<close>

text \<open>
  The loop over the selectors: the elements of the first selector that matches any,
  with the selectors it queried, in order.
\<close>

fun trySelectors :: "('sel \<Rightarrow> 'el list) \<Rightarrow> 'sel list \<Rightarrow> 'el list \<times> 'sel list" where
  "trySelectors query [] = ([], [])"
| "trySelectors query (selector # rest) =
     (let elements = query selector
      in if length elements > 0 then (elements, [selector])
         else (let (found, queried) = trySelectors query rest in (found, selector # queried)))"

definition Novosti :: jsstring where
  "Novosti = [0x41D, 0x43E, 0x432, 0x43E, 0x441, 0x442, 0x438]"

definition Bez_nazvaniya :: jsstring where
  "Bez_nazvaniya = [0x411, 0x435, 0x437, 0x20, 0x43D, 0x430, 0x437, 0x432, 0x430, 0x43D, 0x438, 0x44F]"

definition image_url :: "dom_image option \<Rightarrow> jsstring" where
  "image_url img =
     (case img of
        None \<Rightarrow> []
      | Some i \<Rightarrow>
          (case src i of
             Some s \<Rightarrow> (if s \<noteq> [] then s
                        else (case data_src i of Some d \<Rightarrow> d | None \<Rightarrow> []))
           | None \<Rightarrow> (case data_src i of Some d \<Rightarrow> d | None \<Rightarrow> [])))"

definition meduza_url :: "dom_node \<Rightarrow> jsstring" where
  "meduza_url linkElement =
     ascii ''https://meduza.io'' @ (case href linkElement of Some h \<Rightarrow> h | None \<Rightarrow> ascii ''null'')"

definition elementArticle :: "news_element \<Rightarrow> article" where
  "elementArticle element =
     (let (titleElement, linkElement) =
            (case (el_title element, el_link element) of
               (None, Some l) \<Rightarrow> (Some l, Some l)
             | (Some t, None) \<Rightarrow> (Some t, el_closest element)
             | (t, l) \<Rightarrow> (t, l))
      in \<lparr>title = (case titleElement of Some n \<Rightarrow> trim (innerText n) | None \<Rightarrow> Bez_nazvaniya),
          url = (case linkElement of Some n \<Rightarrow> meduza_url n | None \<Rightarrow> []),
          category = (case el_category element of Some c \<Rightarrow> trim c | None \<Rightarrow> Novosti),
          date = Some (case el_date element of Some d \<Rightarrow> trim d | None \<Rightarrow> []),
          imageUrl = image_url (el_image element),
          summary = Some (case el_summary element of Some t \<Rightarrow> trim t | None \<Rightarrow> [])\<rparr>)"

definition linkArticle :: "news_link \<Rightarrow> article" where
  "linkArticle link =
     \<lparr>title = (if trim (link_text link) \<noteq> [] then trim (link_text link) else Bez_nazvaniya),
      url = ascii ''https://meduza.io'' @ link_href link,
      category = (case parentElement link of
                    Some p \<Rightarrow> (case parent_category p of Some c \<Rightarrow> trim c | None \<Rightarrow> Novosti)
                  | None \<Rightarrow> Novosti),
      date = None,
      imageUrl = (case parentElement link of Some p \<Rightarrow> image_url (parent_image p) | None \<Rightarrow> []),
      summary = None\<rparr>"

definition categoryMatches :: "(jsstring \<Rightarrow> jsstring) \<Rightarrow> jsstring list \<Rightarrow> article \<Rightarrow> bool" where
  "categoryMatches toLowerCase selectedCategories a \<longleftrightarrow>
     length selectedCategories = 0 \<or>
     list_ex (\<lambda>selectedCategory.
                str_includes (toLowerCase (category a)) (toLowerCase selectedCategory))
       selectedCategories"

text \<open>
  The two loops that push the articles that pass the filter. The reads of the model
  throw nothing, so the \<open>try\<close> around the body of the first loop has no other branch.
\<close>

definition pushElements ::
  "(jsstring \<Rightarrow> jsstring) \<Rightarrow> jsstring list \<Rightarrow> article list \<Rightarrow> article list"
where
  "pushElements toLowerCase selectedCategories built =
     foldl (\<lambda>allArticles a.
              if categoryMatches toLowerCase selectedCategories a \<and> url a \<noteq> []
              then allArticles @ [a] else allArticles) [] built"

definition pushLinks ::
  "(jsstring \<Rightarrow> jsstring) \<Rightarrow> jsstring list \<Rightarrow> article list \<Rightarrow> article list"
where
  "pushLinks toLowerCase selectedCategories built =
     foldl (\<lambda>allArticles a.
              if categoryMatches toLowerCase selectedCategories a
              then allArticles @ [a] else allArticles) [] built"

fun fallbackArticles ::
  "(jsstring \<Rightarrow> jsstring) \<Rightarrow> jsstring list \<Rightarrow> news_link list list \<Rightarrow> article list"
where
  "fallbackArticles toLowerCase selectedCategories [] = []"
| "fallbackArticles toLowerCase selectedCategories (links # containers) =
     (if length links > 0
      then pushLinks toLowerCase selectedCategories (map linkArticle links)
      else fallbackArticles toLowerCase selectedCategories containers)"

text \<open>The extraction function of the listing, for any list of selectors.\<close>

definition extractArticles ::
  "(jsstring \<Rightarrow> jsstring) \<Rightarrow> string list \<Rightarrow> listing_document \<Rightarrow> jsstring list \<Rightarrow> article list"
where
  "extractArticles toLowerCase sels doc selectedCategories =
     (let articleElements = fst (trySelectors (querySelectorAll doc) sels)
      in if length articleElements = 0
         then fallbackArticles toLowerCase selectedCategories (possibleContainers doc)
         else pushElements toLowerCase selectedCategories (map elementArticle articleElements))"

subsection \<open>The details of one article\<close>

definition contentSelectors :: "string list" where
  "contentSelectors = [''.GeneralMaterial-article'', ''.RichBlock'', ''.Material-body'', ''article'']"

fun firstElement :: "('sel \<Rightarrow> 'el option) \<Rightarrow> 'sel list \<Rightarrow> 'el option \<times> 'sel list" where
  "firstElement query [] = (None, [])"
| "firstElement query (selector # rest) =
     (case query selector of
        Some element \<Rightarrow> (Some element, [selector])
      | None \<Rightarrow> (let (found, queried) = firstElement query rest in (found, selector # queried)))"

record meduza_document =
  querySelector :: "string \<Rightarrow> jsstring option"
  authors :: "jsstring option"
  tagTexts :: "jsstring list"
  video :: bool

definition meduzaDetails :: "meduza_document \<Rightarrow> jsobject" where
  "meduzaDetails doc =
     [(ascii ''content'',
         Str (case fst (firstElement (querySelector doc) contentSelectors) of
                Some t \<Rightarrow> trim t | None \<Rightarrow> [])),
      (ascii ''author'', Str (case authors doc of Some t \<Rightarrow> trim t | None \<Rightarrow> ascii ''Meduza.io'')),
      (ascii ''tags'', Arr (map (\<lambda>t. Str (trim t)) (tagTexts doc))),
      (ascii ''hasVideo'', Bool (video doc))]"

definition article_object :: "article \<Rightarrow> jsobject" where
  "article_object a =
     [(ascii ''title'', Str (title a)), (ascii ''url'', Str (url a)),
      (ascii ''category'', Str (category a))]
     @ (case date a of Some d \<Rightarrow> [(ascii ''date'', Str d)] | None \<Rightarrow> [])
     @ [(ascii ''imageUrl'', Str (imageUrl a))]
     @ (case summary a of Some t \<Rightarrow> [(ascii ''summary'', Str t)] | None \<Rightarrow> [])"

text \<open>
  One article's page: the navigation (\<open>Some e\<close> when it throws \<open>e\<close>) and the evaluation
  of the extraction function (the exception it throws or the document it saw).
\<close>

record meduza_page =
  page_goto :: "jsvalue option"
  page_evaluate :: "jsvalue + meduza_document"

text \<open>
  The \<open>catch\<close> block of the loop body logs \<open>error.message\<close> and pushes the article as
  it is. Reading \<open>message\<close> of \<open>null\<close> or \<open>undefined\<close> throws a TypeError, out of the
  \<open>catch\<close> block and out of the loop.
\<close>

definition catchArticle :: "jsvalue \<Rightarrow> article \<Rightarrow> jsvalue + jsobject" where
  "catchArticle error a =
     (if error = Undefined \<or> error = Null then Inl TypeError else Inr (article_object a))"

text \<open>
  One turn of the loop: \<open>Inr\<close> is the record pushed to \<open>detailedArticles\<close>, \<open>Inl\<close> the
  exception that leaves the loop.
\<close>

definition detailArticle :: "meduza_page \<Rightarrow> article \<Rightarrow> jsvalue + jsobject" where
  "detailArticle pg a =
     (if url a = [] then Inr (article_object a)
      else (case page_goto pg of
              Some error \<Rightarrow> catchArticle error a
            | None \<Rightarrow>
                (case page_evaluate pg of
                   Inl error \<Rightarrow> catchArticle error a
                 | Inr doc \<Rightarrow> Inr (assign (assign [] (article_object a)) (meduzaDetails doc)))))"

text \<open>
  The loop over the indices of \<open>limitedArticles\<close>: \<open>Inr\<close> is the array returned after
  the last turn, \<open>Inl\<close> the exception of the turn that threw, which
  \<open>parseMeduzaWebsite\<close> throws on to its caller.
\<close>

fun detailLoop ::
  "(nat \<Rightarrow> meduza_page) \<Rightarrow> article list \<Rightarrow> nat list \<Rightarrow> jsobject list \<Rightarrow> jsvalue + jsobject list"
where
  "detailLoop pgs limited [] detailed = Inr detailed"
| "detailLoop pgs limited (i # rest) detailed =
     (case detailArticle (pgs i) (limited ! i) of
        Inl error \<Rightarrow> Inl error
      | Inr pushed \<Rightarrow> detailLoop pgs limited rest (detailed @ [pushed]))"

definition detailedArticles :: "(nat \<Rightarrow> meduza_page) \<Rightarrow> article list \<Rightarrow> jsvalue + jsobject list" where
  "detailedArticles pgs limited = detailLoop pgs limited [0..<length limited] []"

subsection \<open>saveToJson and saveToCsv of the Meduza parser\<close>

definition meduza_saveToJson ::
  "(jsvalue \<Rightarrow> jsstring) \<Rightarrow> jsobject list \<Rightarrow> jsstring \<Rightarrow> io \<Rightarrow> io"
where
  "meduza_saveToJson stringify2 data filename w =
     console_out (Saved filename) (writeFileSync filename (stringify2 (Arr (map Obj data))) w)"

definition meduza_csv_cell :: "(jsvalue \<Rightarrow> jsstring) \<Rightarrow> jsvalue \<Rightarrow> jsstring" where
  "meduza_csv_cell String v =
     (case v of
        Arr xs \<Rightarrow> quoted (array_join String (ascii ''; '') xs)
      | _ \<Rightarrow> quoted (String (if truthy v then v else Str [])))"

definition meduza_csv_row :: "(jsvalue \<Rightarrow> jsstring) \<Rightarrow> jsobject \<Rightarrow> jsstring" where
  "meduza_csv_row String item = join (ascii '','') (map (meduza_csv_cell String) (obj_values item))"

definition meduza_saveToCsv ::
  "(jsvalue \<Rightarrow> jsstring) \<Rightarrow> jsobject list \<Rightarrow> jsstring \<Rightarrow> io \<Rightarrow> io"
where
  "meduza_saveToCsv String data filename w =
     (case data of
        [] \<Rightarrow> console_out No_data_CSV w
      | first # _ \<Rightarrow>
          (let headers = join (ascii '','') (obj_keys first);
               rows = map (meduza_csv_row String) data;
               csvContent = join [0x0A] (headers # rows)
           in console_out (Saved filename) (writeFileSync filename csvContent w)))"

subsection \<open>The calls of the serializers in main\<close>

text \<open>
  \<open>saveToJson\<close> and \<open>saveToCsv\<close> of the Meduza parser are private to the script and
  called at two places of \<open>main\<close>, each time for both files and under the test that
  the parsed array has an element.
\<close>

definition saveArticles ::
  "(jsvalue \<Rightarrow> jsstring) \<Rightarrow> (jsvalue \<Rightarrow> jsstring) \<Rightarrow> jsobject list \<Rightarrow> io \<Rightarrow> io"
where
  "saveArticles stringify2 String articles w =
     meduza_saveToCsv String articles (ascii ''meduza_news_articles.csv'')
       (meduza_saveToJson stringify2 articles (ascii ''meduza_news_articles.json'') w)"

text \<open>
  \<open>main\<close> from the parse of the main page on. The outcome of a call of
  \<open>parseMeduzaWebsite\<close> is the array it returns (\<open>Inr\<close>) or the exception it throws
  (\<open>Inl\<close>), which the \<open>catch\<close> of \<open>main\<close> reports; the news page is parsed only when
  the main page gave no article. The files and the console are those of the save step:
  the debug copies that \<open>parseMeduzaWebsite\<close> writes, the list of categories and the
  statistics printed before saving are outside the model.
\<close>

definition main ::
  "(jsvalue \<Rightarrow> jsstring) \<Rightarrow> (jsvalue \<Rightarrow> jsstring) \<Rightarrow>
   jsvalue + jsobject list \<Rightarrow> jsvalue + jsobject list \<Rightarrow> io \<Rightarrow> io"
where
  "main stringify2 String mainPage newsPage w =
     (case mainPage of
        Inl error \<Rightarrow> console_out (Main_error error) w
      | Inr mainPageArticles \<Rightarrow>
          (if length mainPageArticles > 0
           then saveArticles stringify2 String mainPageArticles w
           else (case newsPage of
                   Inl error \<Rightarrow> console_out (Main_error error) (console_out Not_found_main_page w)
                 | Inr newsArticles \<Rightarrow>
                     (if length newsArticles > 0
                      then saveArticles stringify2 String newsArticles
                             (console_out Not_found_main_page w)
                      else console_out Not_found_news_page (console_out Not_found_main_page w)))))"

section \<open>Inputs of the scenarios\<close>

text \<open>The content of the sentiment scenario, and one token that contains a word of each lexicon.\<close>

definition scenario :: jsstring where
  "scenario = [0x440, 0x43E, 0x441, 0x442, 0x20, 0x440, 0x43E, 0x441, 0x442, 0x20,
               0x43A, 0x440, 0x438, 0x437, 0x438, 0x441]"

definition both_lexicons :: jsstring where
  "both_lexicons = [0x440, 0x43E, 0x441, 0x442, 0x440, 0x438, 0x441, 0x43A]"

text \<open>The order in which the values of a list are first seen.\<close>

fun first_seen :: "'a list \<Rightarrow> 'a list" where
  "first_seen [] = []"
| "first_seen (x # xs) = x # removeAll x (first_seen xs)"

text \<open>A listing in which the first and the third link share their address.\<close>

definition dup_listing :: "(jsstring \<times> jsstring) list" where
  "dup_listing =
     [(ascii ''First'', ascii ''https://www.rbc.ru/politics/1''),
      (ascii ''Other'', ascii ''https://www.rbc.ru/society/2''),
      (ascii ''Second'', ascii ''https://www.rbc.ru/politics/1'')]"


text \<open>
  A navigation that times out twice and then succeeds, one that always times out, and
  the page of an article whose navigation succeeds in the third attempt.
\<close>

definition timeout_error :: jsvalue where
  "timeout_error = Obj [(ascii ''message'', Str (ascii ''Navigation timeout''))]"

definition flaky :: "nat \<Rightarrow> jsvalue + unit" where
  "flaky k = (if k < 3 then Inl timeout_error else Inr ())"

definition down :: "nat \<Rightarrow> jsvalue + unit" where
  "down k = Inl timeout_error"

definition sample_document :: article_document where
  "sample_document =
     \<lparr>contentElement = Some scenario, authorElement = None, tagElements = [],
      dateElement = None, imageElement = None, videoElement = False\<rparr>"

definition flaky_page :: page_env where
  "flaky_page =
     \<lparr>page_setup = None,
      goto_attempt = (\<lambda>k. if k < 3 then Some timeout_error else None),
      page_result = Inr sample_document,
      handler_close = None,
      now = ascii ''2025-01-01T00:00:00.000Z''\<rparr>"

definition sample_stub :: stub where
  "sample_stub = \<lparr>title = ascii ''First'', url = ascii ''https://www.rbc.ru/politics/1''\<rparr>"

text \<open>
  A run over that listing in which the navigation to the first article always times out
  and the second article loads in the third attempt; the second task settles first.
\<close>

definition down_page :: page_env where
  "down_page =
     \<lparr>page_setup = None,
      goto_attempt = (\<lambda>k. Some timeout_error),
      page_result = Inr sample_document,
      handler_close = None,
      now = ascii ''2025-01-01T00:00:30.000Z''\<rparr>"

definition sample_site :: site_env where
  "sample_site =
     \<lparr>listing_goto = (\<lambda>k. None),
      listing_result = Inr dup_listing,
      pages = (\<lambda>i. if i = 0 then down_page else flaky_page),
      completion = [1, 0],
      browser_close = None\<rparr>"






text \<open>
  The conversion \<open>String\<close> on the values of the model (numbers are integers), used to
  run the serializers on concrete records.
\<close>

function decimal :: "nat \<Rightarrow> jsstring" where
  "decimal n = (if n < 10 then [of_nat (48 + n)] else decimal (n div 10) @ [of_nat (48 + n mod 10)])"
  by pat_completeness auto
termination
  by (relation "measure id") auto

fun String_model :: "jsvalue \<Rightarrow> jsstring" where
  "String_model Undefined = ascii ''undefined''"
| "String_model Null = ascii ''null''"
| "String_model (Bool b) = (if b then ascii ''true'' else ascii ''false'')"
| "String_model (Num n) = (if n < 0 then ascii ''-'' @ decimal (nat (- n)) else decimal (nat n))"
| "String_model (Str s) = s"
| "String_model (Arr xs) =
     join (ascii '','') (map (\<lambda>x. if x = Undefined \<or> x = Null then [] else String_model x) xs)"
| "String_model (Obj ps) = ascii ''[object Object]''"
| "String_model (Function name) = ascii ''function '' @ name @ ascii ''() { [native code] }''"


text \<open>Two records with different keys, and the state before anything is written.\<close>

definition mixed_records :: "jsobject list" where
  "mixed_records =
     [[(ascii ''title'', Str (ascii ''A'')), (ascii ''url'', Str (ascii ''u''))],
      [(ascii ''title'', Str (ascii ''B'')), (ascii ''content'', Str (ascii ''c''))]]"

definition empty_io :: io where
  "empty_io = \<lparr>files = Map.empty, console = []\<rparr>"

text \<open>
  Listing documents: one in which only the third selector, \<open>.NewsCard\<close>, matches
  (three cards, each with a heading and a link inside it), one in which no selector
  matches and the second container holds a link; two articles with different
  categories; an article page whose content is found by the second content selector,
  one with no content element, and one with no content element that has a link
  matching the path patterns of the listing's fallback.
\<close>

definition news_card :: "jsstring \<Rightarrow> jsstring \<Rightarrow> news_element" where
  "news_card heading target =
     \<lparr>el_title = Some \<lparr>innerText = heading, href = None\<rparr>,
      el_link = Some \<lparr>innerText = heading, href = Some target\<rparr>,
      el_closest = None, el_category = None, el_date = None, el_image = None,
      el_summary = None\<rparr>"

definition three_cards :: listing_document where
  "three_cards =
     \<lparr>querySelectorAll =
        (\<lambda>selector. if selector = ''.NewsCard''
                     then [news_card (ascii ''One'') (ascii ''/news/1''),
                           news_card (ascii ''Two'') (ascii ''/news/2''),
                           news_card (ascii ''Three'') (ascii ''/news/3'')]
                     else []),
      possibleContainers = []\<rparr>"

definition politics_article :: article where
  "politics_article =
     \<lparr>title = ascii ''Vote'', url = ascii ''https://meduza.io/news/1'',
      category = ascii ''World Politics'', date = None, imageUrl = [], summary = None\<rparr>"

definition sport_article :: article where
  "sport_article =
     \<lparr>title = ascii ''Match'', url = ascii ''https://meduza.io/news/2'',
      category = ascii ''Sport'', date = None, imageUrl = [], summary = None\<rparr>"

definition sample_link :: news_link where
  "sample_link = \<lparr>link_text = ascii '' Story '', link_href = ascii ''/feature/7'', parentElement = None\<rparr>"

definition fallback_listing :: listing_document where
  "fallback_listing =
     \<lparr>querySelectorAll = (\<lambda>selector. []), possibleContainers = [[], [sample_link]]\<rparr>"

definition rich_document :: meduza_document where
  "rich_document =
     \<lparr>querySelector = (\<lambda>selector. if selector = ''.RichBlock'' \<or> selector = ''article''
                                   then Some (ascii '' Body '') else None),
      authors = None, tagTexts = [], video = False\<rparr>"

definition bare_document :: meduza_document where
  "bare_document =
     \<lparr>querySelector = (\<lambda>selector. None), authors = None, tagTexts = [], video = False\<rparr>"

definition newsLinks :: string where
  \<open>newsLinks = ''a[href*="/news/"], a[href*="/feature/"], a[href*="/story/"]''\<close>

definition links_only_document :: meduza_document where
  "links_only_document =
     \<lparr>querySelector = (\<lambda>selector. if selector = newsLinks then Some (ascii ''Story'') else None),
      authors = None, tagTexts = [], video = False\<rparr>"


section \<open>Properties\<close>

subsection \<open>Strings\<close>

lemma startsWith_iff: "startsWith s w \<longleftrightarrow> (\<exists>b. s = w @ b)"
  by (induction s w rule: startsWith.induct) auto

lemma str_includes_iff: "str_includes s w \<longleftrightarrow> (\<exists>a b. s = a @ w @ b)"
proof (induction s)
  case Nil
  then show ?case by auto
next
  case (Cons c cs)
  show ?case
  proof
    assume "str_includes (c # cs) w"
    then consider "startsWith (c # cs) w" | "str_includes cs w" by auto
    then show "\<exists>a b. c # cs = a @ w @ b"
    proof cases
      case 1
      then obtain b where "c # cs = w @ b" by (auto simp: startsWith_iff)
      then have "c # cs = [] @ w @ b" by simp
      then show ?thesis by blast
    next
      case 2
      then obtain a b where "cs = a @ w @ b" using Cons.IH by auto
      then have "c # cs = (c # a) @ w @ b" by simp
      then show ?thesis by blast
    qed
  next
    assume "\<exists>a b. c # cs = a @ w @ b"
    then obtain a b where ab: "c # cs = a @ w @ b" by blast
    show "str_includes (c # cs) w"
    proof (cases a)
      case Nil
      then have "startsWith (c # cs) w" using ab by (auto simp: startsWith_iff)
      then show ?thesis by simp
    next
      case (Cons a0 as)
      then have "cs = as @ w @ b" using ab by simp
      then have "str_includes cs w" using Cons.IH by blast
      then show ?thesis by simp
    qed
  qed
qed

lemma split_ws_nonempty: "split_ws s \<noteq> []"
  by (induction s rule: split_ws.induct) (auto split: list.splits)

lemma split_ws_no_space: "\<forall>t \<in> set (split_ws s). \<forall>c \<in> set t. \<not> isWhiteSpace c"
proof (induction s rule: split_ws.induct)
  case 1
  then show ?case by simp
next
  case (2 d ds)
  show ?case
  proof (cases "isWhiteSpace d")
    case True
    have "split_ws (d # ds) = [] # split_ws (dropWhile isWhiteSpace ds)"
      using True by simp
    then show ?thesis using 2(1)[OF True] by simp
  next
    case False
    obtain u us where us: "split_ws ds = u # us"
      using split_ws_nonempty[of ds] by (cases "split_ws ds") auto
    have eq: "split_ws (d # ds) = (d # u) # us"
      using False us by simp
    have "\<forall>t \<in> set (u # us). \<forall>c \<in> set t. \<not> isWhiteSpace c"
      using 2(2)[OF False] us by simp
    then show ?thesis unfolding eq using False by simp
  qed
qed

lemma foldl_score_word:
  "foldl score_word (p, n) ws =
     (p + int (length (filter (\<lambda>t. list_ex (\<lambda>w. str_includes t w) positiveWords) ws)),
      n + int (length (filter (\<lambda>t. list_ex (\<lambda>w. str_includes t w) negativeWords) ws)))"
  by (induction ws arbitrary: p n) (auto simp: score_word_def Let_def)

lemma includes_pred:
  "(\<lambda>t. list_ex (\<lambda>w. str_includes t w) ws) = (\<lambda>t. \<exists>w \<in> set ws. \<exists>a b. t = a @ w @ b)"
  by (auto simp: list_ex_iff str_includes_iff)

lemma getTextSentiment_tokens:
  "(let tokens = split_ws (toLowerCase text);
        pos = int (length (filter (\<lambda>t. \<exists>w \<in> set positiveWords. \<exists>a b. t = a @ w @ b) tokens));
        neg = int (length (filter (\<lambda>t. \<exists>w \<in> set negativeWords. \<exists>a b. t = a @ w @ b) tokens))
    in getTextSentiment toLowerCase text =
         [(ascii ''positive'', Num pos),
          (ascii ''negative'', Num neg),
          (ascii ''neutral'', Num (int (length tokens) - pos - neg)),
          (ascii ''sentiment'',
             Str (if pos > neg then ascii ''positive''
                  else if neg > pos then ascii ''negative'' else ascii ''neutral''))]
       \<and> (\<forall>t \<in> set tokens. \<forall>c \<in> set t. \<not> isWhiteSpace c))"
  unfolding getTextSentiment_def Let_def foldl_score_word includes_pred
  using split_ws_no_space by simp


subsection \<open>Sentiment scoring\<close>

lemma scenario_sentiment:
  "toLowerCase scenario = scenario \<Longrightarrow>
     getTextSentiment toLowerCase scenario =
       [(ascii ''positive'', Num 2), (ascii ''negative'', Num 1),
        (ascii ''neutral'', Num 0), (ascii ''sentiment'', Str (ascii ''positive''))]"
  by (simp add: getTextSentiment_def scenario_def isWhiteSpace_def score_word_def
        positiveWords_def negativeWords_def)

lemma both_lexicons_sentiment:
  "toLowerCase both_lexicons = both_lexicons \<Longrightarrow>
     obj_get (getTextSentiment toLowerCase both_lexicons) (ascii ''neutral'') = Num (- 1)"
  by (simp add: getTextSentiment_def both_lexicons_def isWhiteSpace_def score_word_def
        positiveWords_def negativeWords_def ascii_def)

text \<open>
  C6. \<open>getTextSentiment\<close> lower-cases the content and splits it at white space; the
  tokens hold no white space. \<open>positive\<close> is the number of tokens that contain a word
  of the positive lexicon as a substring, \<open>negative\<close> the number of tokens that contain
  a word of the negative lexicon (a token can count for both), \<open>neutral\<close> is the
  number of tokens minus both, and the label is \<open>positive\<close> when positive exceeds
  negative, \<open>negative\<close> when negative exceeds positive, \<open>neutral\<close> otherwise. On the
  scenario's content (already lower case) the result is 2, 1, 0 and \<open>positive\<close>; on a
  single token matching both lexicons \<open>neutral\<close> is \<open>-1\<close>.
\<close>

theorem getTextSentiment_scoring:
  "(let tokens = split_ws (toLowerCase text);
        pos = int (length (filter (\<lambda>t. \<exists>w \<in> set positiveWords. \<exists>a b. t = a @ w @ b) tokens));
        neg = int (length (filter (\<lambda>t. \<exists>w \<in> set negativeWords. \<exists>a b. t = a @ w @ b) tokens))
    in getTextSentiment toLowerCase text =
         [(ascii ''positive'', Num pos),
          (ascii ''negative'', Num neg),
          (ascii ''neutral'', Num (int (length tokens) - pos - neg)),
          (ascii ''sentiment'',
             Str (if pos > neg then ascii ''positive''
                  else if neg > pos then ascii ''negative'' else ascii ''neutral''))]
       \<and> (\<forall>t \<in> set tokens. \<forall>c \<in> set t. \<not> isWhiteSpace c))
   \<and> (toLowerCase scenario = scenario \<longrightarrow>
        getTextSentiment toLowerCase scenario =
          [(ascii ''positive'', Num 2), (ascii ''negative'', Num 1),
           (ascii ''neutral'', Num 0), (ascii ''sentiment'', Str (ascii ''positive''))])
   \<and> (toLowerCase both_lexicons = both_lexicons \<longrightarrow>
        obj_get (getTextSentiment toLowerCase both_lexicons) (ascii ''neutral'') = Num (- 1))"
  by (intro conjI impI)
     (rule getTextSentiment_tokens, erule scenario_sentiment, erule both_lexicons_sentiment)

text \<open>The theorem at the lower-casing of the Basic Latin and Cyrillic blocks.\<close>

theorem getTextSentiment_scoring_witness:
  "toLowerCase_cyr scenario = scenario
   \<and> getTextSentiment toLowerCase_cyr scenario =
          [(ascii ''positive'', Num 2), (ascii ''negative'', Num 1),
           (ascii ''neutral'', Num 0), (ascii ''sentiment'', Str (ascii ''positive''))]
   \<and> toLowerCase_cyr both_lexicons = both_lexicons
   \<and> obj_get (getTextSentiment toLowerCase_cyr both_lexicons) (ascii ''neutral'') = Num (- 1)"
proof -
  have h1: "toLowerCase_cyr scenario = scenario"
    by (simp add: toLowerCase_cyr_def scenario_def lower_unit_def)
  have h2: "toLowerCase_cyr both_lexicons = both_lexicons"
    by (simp add: toLowerCase_cyr_def both_lexicons_def lower_unit_def)
  note T = getTextSentiment_scoring[of toLowerCase_cyr scenario]
  from T have "toLowerCase_cyr scenario = scenario \<longrightarrow>
        getTextSentiment toLowerCase_cyr scenario =
          [(ascii ''positive'', Num 2), (ascii ''negative'', Num 1),
           (ascii ''neutral'', Num 0), (ascii ''sentiment'', Str (ascii ''positive''))]"
    by (rule conjunct1[OF conjunct2])
  moreover from T have "toLowerCase_cyr both_lexicons = both_lexicons \<longrightarrow>
        obj_get (getTextSentiment toLowerCase_cyr both_lexicons) (ascii ''neutral'') = Num (- 1)"
    by (rule conjunct2[OF conjunct2])
  ultimately show ?thesis using h1 h2 by blast
qed

subsection \<open>tryWithRetry\<close>

lemma retry_loop_success:
  "(\<forall>k. a \<le> k \<and> k < m \<longrightarrow> (\<exists>e. fn k = Inl e)) \<Longrightarrow> fn m = Inr v \<Longrightarrow> a \<le> m \<Longrightarrow> m < a + r \<Longrightarrow>
     retry_loop fn d a r lastError =
       (Inr v, concat (map (\<lambda>k. [Invoke k, Delay d]) [a..<m]) @ [Invoke m])"
proof (induction r arbitrary: a lastError)
  case 0
  then show ?case by simp
next
  case (Suc r)
  show ?case
  proof (cases "a = m")
    case True
    then show ?thesis using Suc.prems by simp
  next
    case False
    then have lt: "a < m" using Suc.prems by simp
    then obtain e where e: "fn a = Inl e" using Suc.prems(1) by auto
    have "retry_loop fn d (Suc a) r e =
       (Inr v, concat (map (\<lambda>k. [Invoke k, Delay d]) [Suc a..<m]) @ [Invoke m])"
      using Suc.IH[of "Suc a" e] Suc.prems lt by simp
    then show ?thesis using e lt by (simp add: upt_conv_Cons)
  qed
qed

lemma retry_loop_failure:
  "(\<forall>k. a \<le> k \<and> k < a + r \<longrightarrow> fn k = Inl (err k)) \<Longrightarrow>
     retry_loop fn d a r lastError =
       (Inl (if r = 0 then lastError else err (a + r - 1)),
        concat (map (\<lambda>k. [Invoke k, Delay d]) [a..<a + r]))"
proof (induction r arbitrary: a lastError)
  case 0
  then show ?case by simp
next
  case (Suc r)
  have e: "fn a = Inl (err a)" using Suc.prems by simp
  have "retry_loop fn d (Suc a) r (err a) =
       (Inl (if r = 0 then err a else err (Suc a + r - 1)),
        concat (map (\<lambda>k. [Invoke k, Delay d]) [Suc a..<Suc a + r]))"
    using Suc.IH[of "Suc a" "err a"] Suc.prems by simp
  then show ?case using e by (auto simp: upt_conv_Cons)
qed

lemma invocations_retry_loop:
  "retry_loop fn d a r lastError = (res, tr) \<Longrightarrow> invocations tr \<le> r"
proof (induction r arbitrary: a lastError res tr)
  case 0
  then show ?case by (simp add: invocations_def)
next
  case (Suc r)
  show ?case
  proof (cases "fn a")
    case (Inr v)
    then show ?thesis using Suc.prems by (auto simp: invocations_def)
  next
    case (Inl e)
    obtain res' tr' where rec: "retry_loop fn d (Suc a) r e = (res', tr')"
      by (cases "retry_loop fn d (Suc a) r e") auto
    then have "invocations tr' \<le> r" by (rule Suc.IH)
    moreover have "tr = Invoke a # Delay d # tr'"
      using Suc.prems Inl rec by simp
    ultimately show ?thesis by (simp add: invocations_def)
  qed
qed

lemma invocations_attempts:
  "invocations (concat (map (\<lambda>k. [Invoke k, Delay d]) ks) @ tr) = length ks + invocations tr"
  by (induction ks) (auto simp: invocations_def)

lemma delays_attempts:
  "delays (concat (map (\<lambda>k. [Invoke k, Delay d]) ks) @ tr) = replicate (length ks) d @ delays tr"
  by (induction ks) (auto simp: delays_def)

lemma tryWithRetry_success:
  assumes "1 \<le> m" "int m \<le> maxRetries" "\<forall>k. 1 \<le> k \<and> k < m \<longrightarrow> (\<exists>e. fn k = Inl e)" "fn m = Inr v"
  shows "tryWithRetry fn maxRetries d =
           (Inr v, concat (map (\<lambda>k. [Invoke k, Delay d]) [1..<m]) @ [Invoke m])"
proof -
  have "m < 1 + nat maxRetries" using assms(2) by linarith
  then show ?thesis
    unfolding tryWithRetry_def using assms retry_loop_success[of 1 m fn v "nat maxRetries" d Undefined]
    by simp
qed

lemma tryWithRetry_failure:
  assumes "1 \<le> n" "\<forall>k. 1 \<le> k \<and> k \<le> n \<longrightarrow> fn k = Inl (err k)"
  shows "tryWithRetry fn (int n) d =
           (Inl (err n), concat (map (\<lambda>k. [Invoke k, Delay d]) [1..<Suc n]))"
proof -
  have "\<forall>k. 1 \<le> k \<and> k < 1 + n \<longrightarrow> fn k = Inl (err k)" using assms(2) by auto
  from retry_loop_failure[OF this, of d Undefined] show ?thesis
    unfolding tryWithRetry_def using assms(1) by simp
qed

lemma detailedArticle_explicit:
  "detailedArticle toLowerCase article doc parsedAt =
     [(ascii ''title'', Str (title article)),
      (ascii ''url'', Str (url article)),
      (ascii ''content'', obj_get (extractDetails doc) (ascii ''content'')),
      (ascii ''author'', obj_get (extractDetails doc) (ascii ''author'')),
      (ascii ''tags'', obj_get (extractDetails doc) (ascii ''tags'')),
      (ascii ''publishedAt'', obj_get (extractDetails doc) (ascii ''publishedAt'')),
      (ascii ''imageUrl'', obj_get (extractDetails doc) (ascii ''imageUrl'')),
      (ascii ''hasVideo'', obj_get (extractDetails doc) (ascii ''hasVideo'')),
      (ascii ''category'', Str (getCategory (url article))),
      (ascii ''sentiment'', Obj (getTextSentiment toLowerCase (detailsContent doc))),
      (ascii ''parsedAt'', Str parsedAt)]"
  by (simp add: detailedArticle_def extractDetails_def stub_object_def assign_def Let_def ascii_def)

lemma degradedArticle_explicit:
  "degradedArticle article error parsedAt =
     [(ascii ''title'', Str (title article)),
      (ascii ''url'', Str (url article)),
      (ascii ''category'', Str (getCategory (url article))),
      (ascii ''content'', Str []),
      (ascii ''author'', Str RBK),
      (ascii ''tags'', Arr []),
      (ascii ''hasVideo'', Bool False),
      (ascii ''parsedAt'', Str parsedAt),
      (ascii ''error'', get_prop error (ascii ''message''))]"
  by (simp add: degradedArticle_def stub_object_def assign_def ascii_def)

lemma detailedArticle_keys:
  "obj_keys (detailedArticle toLowerCase article doc parsedAt) =
     map ascii [''title'', ''url'', ''content'', ''author'', ''tags'', ''publishedAt'',
                ''imageUrl'', ''hasVideo'', ''category'', ''sentiment'', ''parsedAt'']"
  by (simp add: detailedArticle_explicit obj_keys_def)

lemma degradedArticle_keys:
  "obj_keys (degradedArticle article error parsedAt) =
     map ascii [''title'', ''url'', ''category'', ''content'', ''author'', ''tags'',
                ''hasVideo'', ''parsedAt'', ''error'']"
  by (simp add: degradedArticle_explicit obj_keys_def)

lemma detailedArticle_no_error:
  "\<not> has_key (detailedArticle toLowerCase article doc parsedAt) (ascii ''error'')"
  by (simp add: has_key_def detailedArticle_keys) (simp add: ascii_def)

lemma processArticle_third_attempt:
  assumes "page_setup env = None" "goto_attempt env 1 = Some e1" "goto_attempt env 2 = Some e2"
    "goto_attempt env 3 = None" "page_result env = Inr doc"
  shows "processArticle toLowerCase env article = Inr (detailedArticle toLowerCase article doc (now env))"
proof -
  let ?fn = "\<lambda>k. case goto_attempt env k of Some e \<Rightarrow> Inl e | None \<Rightarrow> Inr ()"
  have "\<forall>k. 1 \<le> k \<and> k < 3 \<longrightarrow> (\<exists>e. ?fn k = Inl e)"
  proof (intro allI impI)
    fix k :: nat assume "1 \<le> k \<and> k < 3"
    then have "k = 1 \<or> k = 2" by auto
    then show "\<exists>e. ?fn k = Inl e" using assms by auto
  qed
  moreover have "?fn 3 = Inr ()" using assms by simp
  ultimately have "fst (tryWithRetry ?fn config_maxRetries config_retryDelay) = Inr ()"
    using tryWithRetry_success[of 3 config_maxRetries ?fn "()" config_retryDelay]
    by (simp add: config_maxRetries_def)
  then show ?thesis using assms by (simp add: processArticle_def)
qed


text \<open>
  C5. When the first invocations of \<open>fn\<close> throw and invocation \<open>m\<close>, within
  \<open>maxRetries\<close>, returns, \<open>tryWithRetry\<close> returns that result after exactly \<open>m\<close>
  invocations, having waited \<open>retryDelay\<close> after each failure; when all of \<open>n\<close>
  attempts throw, it throws the last error after \<open>n\<close> invocations; it never makes more
  than \<open>maxRetries\<close> invocations. With three attempts and delay 0, a function that
  fails twice and then succeeds is invoked exactly 3 times and its result is returned;
  the task of an article whose navigation does so resolves to the complete record,
  which has no \<open>error\<close> field.
\<close>

theorem tryWithRetry_attempts:
  "(1 \<le> m \<and> int m \<le> maxRetries \<and> (\<forall>k. 1 \<le> k \<and> k < m \<longrightarrow> (\<exists>e. fn k = Inl e)) \<and> fn m = Inr v \<longrightarrow>
      tryWithRetry fn maxRetries retryDelay =
        (Inr v, concat (map (\<lambda>k. [Invoke k, Delay retryDelay]) [1..<m]) @ [Invoke m])
      \<and> invocations (snd (tryWithRetry fn maxRetries retryDelay)) = m
      \<and> delays (snd (tryWithRetry fn maxRetries retryDelay)) = replicate (m - 1) retryDelay)
   \<and> (1 \<le> n \<and> (\<forall>k. 1 \<le> k \<and> k \<le> n \<longrightarrow> fn k = Inl (err k)) \<longrightarrow>
      tryWithRetry fn (int n) retryDelay =
        (Inl (err n), concat (map (\<lambda>k. [Invoke k, Delay retryDelay]) [1..<Suc n]))
      \<and> invocations (snd (tryWithRetry fn (int n) retryDelay)) = n)
   \<and> invocations (snd (tryWithRetry fn maxRetries retryDelay)) \<le> nat maxRetries
   \<and> (fn 1 = Inl ea \<and> fn 2 = Inl eb \<and> fn 3 = Inr v \<longrightarrow>
      tryWithRetry fn 3 0 = (Inr v, [Invoke 1, Delay 0, Invoke 2, Delay 0, Invoke 3])
      \<and> invocations (snd (tryWithRetry fn 3 0)) = 3)
   \<and> (page_setup env = None \<and> goto_attempt env 1 = Some ea \<and> goto_attempt env 2 = Some eb
        \<and> goto_attempt env 3 = None \<and> page_result env = Inr doc \<longrightarrow>
      processArticle toLowerCase env article =
        Inr (detailedArticle toLowerCase article doc (now env))
      \<and> obj_keys (detailedArticle toLowerCase article doc (now env)) =
          map ascii [''title'', ''url'', ''content'', ''author'', ''tags'', ''publishedAt'',
                     ''imageUrl'', ''hasVideo'', ''category'', ''sentiment'', ''parsedAt'']
      \<and> \<not> has_key (detailedArticle toLowerCase article doc (now env)) (ascii ''error''))"
proof (intro conjI impI)
  assume h: "1 \<le> m \<and> int m \<le> maxRetries \<and> (\<forall>k. 1 \<le> k \<and> k < m \<longrightarrow> (\<exists>e. fn k = Inl e)) \<and> fn m = Inr v"
  then have eq: "tryWithRetry fn maxRetries retryDelay =
        (Inr v, concat (map (\<lambda>k. [Invoke k, Delay retryDelay]) [1..<m]) @ [Invoke m])"
    using tryWithRetry_success[of m maxRetries fn v retryDelay] by blast
  show "tryWithRetry fn maxRetries retryDelay =
        (Inr v, concat (map (\<lambda>k. [Invoke k, Delay retryDelay]) [1..<m]) @ [Invoke m])"
    by (rule eq)
  show "invocations (snd (tryWithRetry fn maxRetries retryDelay)) = m"
    unfolding eq snd_conv invocations_attempts using h by (simp add: invocations_def)
  show "delays (snd (tryWithRetry fn maxRetries retryDelay)) = replicate (m - 1) retryDelay"
    unfolding eq snd_conv delays_attempts by (simp add: delays_def)
next
  assume h: "1 \<le> n \<and> (\<forall>k. 1 \<le> k \<and> k \<le> n \<longrightarrow> fn k = Inl (err k))"
  then have eq: "tryWithRetry fn (int n) retryDelay =
        (Inl (err n), concat (map (\<lambda>k. [Invoke k, Delay retryDelay]) [1..<Suc n]))"
    using tryWithRetry_failure[of n fn err retryDelay] by blast
  show "tryWithRetry fn (int n) retryDelay =
        (Inl (err n), concat (map (\<lambda>k. [Invoke k, Delay retryDelay]) [1..<Suc n]))"
    by (rule eq)
  show "invocations (snd (tryWithRetry fn (int n) retryDelay)) = n"
    unfolding eq snd_conv using invocations_attempts[of retryDelay "[1..<Suc n]" "[]"]
    by (simp add: invocations_def)
next
  show "invocations (snd (tryWithRetry fn maxRetries retryDelay)) \<le> nat maxRetries"
    unfolding tryWithRetry_def
    by (rule invocations_retry_loop[of fn retryDelay 1 "nat maxRetries" Undefined
          "fst (retry_loop fn retryDelay 1 (nat maxRetries) Undefined)"]) simp
next
  assume h: "fn 1 = Inl ea \<and> fn 2 = Inl eb \<and> fn 3 = Inr v"
  then have eq: "tryWithRetry fn 3 0 = (Inr v, [Invoke 1, Delay 0, Invoke 2, Delay 0, Invoke 3])"
    by (simp add: tryWithRetry_def eval_nat_numeral)
  show "tryWithRetry fn 3 0 = (Inr v, [Invoke 1, Delay 0, Invoke 2, Delay 0, Invoke 3])"
    by (rule eq)
  show "invocations (snd (tryWithRetry fn 3 0)) = 3"
    unfolding eq by (simp add: invocations_def)
next
  assume h: "page_setup env = None \<and> goto_attempt env 1 = Some ea \<and> goto_attempt env 2 = Some eb
        \<and> goto_attempt env 3 = None \<and> page_result env = Inr doc"
  then show "processArticle toLowerCase env article =
        Inr (detailedArticle toLowerCase article doc (now env))"
    using processArticle_third_attempt[of env ea eb doc toLowerCase article] by blast
next
  show "obj_keys (detailedArticle toLowerCase article doc (now env)) =
          map ascii [''title'', ''url'', ''content'', ''author'', ''tags'', ''publishedAt'',
                     ''imageUrl'', ''hasVideo'', ''category'', ''sentiment'', ''parsedAt'']"
    by (rule detailedArticle_keys)
next
  show "\<not> has_key (detailedArticle toLowerCase article doc (now env)) (ascii ''error'')"
    by (rule detailedArticle_no_error)
qed


text \<open>The theorem at the navigation that times out twice, and at the one that always does.\<close>

theorem tryWithRetry_attempts_witness:
  "tryWithRetry flaky 3 0 = (Inr (), [Invoke 1, Delay 0, Invoke 2, Delay 0, Invoke 3])
   \<and> invocations (snd (tryWithRetry flaky 3 0)) = 3
   \<and> delays (snd (tryWithRetry flaky 3 0)) = [0, 0]
   \<and> tryWithRetry down 3 1000 =
       (Inl timeout_error, [Invoke 1, Delay 1000, Invoke 2, Delay 1000, Invoke 3, Delay 1000])
   \<and> processArticle toLowerCase_cyr flaky_page sample_stub =
       Inr (detailedArticle toLowerCase_cyr sample_stub sample_document (now flaky_page))
   \<and> \<not> has_key (detailedArticle toLowerCase_cyr sample_stub sample_document (now flaky_page))
         (ascii ''error'')"
proof -
  note A = tryWithRetry_attempts[where fn = flaky and m = 3 and maxRetries = 3 and retryDelay = 0
      and v = "()" and ea = timeout_error and eb = timeout_error and n = 0
      and env = flaky_page and doc = sample_document and toLowerCase = toLowerCase_cyr
      and article = sample_stub]
  note B = tryWithRetry_attempts[where fn = down and n = 3 and err = "\<lambda>k. timeout_error"
      and retryDelay = 1000 and m = 0 and maxRetries = 3 and env = flaky_page]
  have a1: "1 \<le> (3::nat) \<and> int 3 \<le> 3 \<and> (\<forall>k. 1 \<le> k \<and> k < 3 \<longrightarrow> (\<exists>e. flaky k = Inl e)) \<and> flaky 3 = Inr ()"
    by (simp add: flaky_def)
  have a2: "flaky 1 = Inl timeout_error \<and> flaky 2 = Inl timeout_error \<and> flaky 3 = Inr ()"
    by (simp add: flaky_def)
  have a3: "page_setup flaky_page = None \<and> goto_attempt flaky_page 1 = Some timeout_error
      \<and> goto_attempt flaky_page 2 = Some timeout_error \<and> goto_attempt flaky_page 3 = None
      \<and> page_result flaky_page = Inr sample_document"
    by (simp add: flaky_page_def)
  have b1: "1 \<le> (3::nat) \<and> (\<forall>k. 1 \<le> k \<and> k \<le> 3 \<longrightarrow> down k = Inl timeout_error)"
    by (simp add: down_def)
  have c1: "tryWithRetry flaky 3 0 = (Inr (), [Invoke 1, Delay 0, Invoke 2, Delay 0, Invoke 3])
      \<and> invocations (snd (tryWithRetry flaky 3 0)) = 3"
    by (rule mp[OF A[THEN conjunct2, THEN conjunct2, THEN conjunct2, THEN conjunct1] a2])
  have c2: "processArticle toLowerCase_cyr flaky_page sample_stub =
       Inr (detailedArticle toLowerCase_cyr sample_stub sample_document (now flaky_page))
     \<and> obj_keys (detailedArticle toLowerCase_cyr sample_stub sample_document (now flaky_page)) =
          map ascii [''title'', ''url'', ''content'', ''author'', ''tags'', ''publishedAt'',
                     ''imageUrl'', ''hasVideo'', ''category'', ''sentiment'', ''parsedAt'']
     \<and> \<not> has_key (detailedArticle toLowerCase_cyr sample_stub sample_document (now flaky_page))
         (ascii ''error'')"
    by (rule mp[OF A[THEN conjunct2, THEN conjunct2, THEN conjunct2, THEN conjunct2] a3])
  have "tryWithRetry down (int 3) 1000 =
       (Inl timeout_error, concat (map (\<lambda>k. [Invoke k, Delay 1000]) [1..<Suc 3]))
     \<and> invocations (snd (tryWithRetry down (int 3) 1000)) = 3"
    by (rule mp[OF B[THEN conjunct2, THEN conjunct1] b1])
  then have c3: "tryWithRetry down 3 1000 =
       (Inl timeout_error, [Invoke 1, Delay 1000, Invoke 2, Delay 1000, Invoke 3, Delay 1000])"
    by (simp add: upt_conv_Cons)
  have "delays (snd (tryWithRetry flaky 3 0)) = replicate (3 - 1) 0"
    using mp[OF A[THEN conjunct1] a1] by (elim conjE)
  then have c4: "delays (snd (tryWithRetry flaky 3 0)) = [0, 0]"
    by (simp add: eval_nat_numeral)
  show ?thesis using c1 c2 c3 c4 by blast
qed



subsection \<open>Deduplication\<close>

lemma first_seen_set: "set (first_seen xs) = set xs"
  by (induction xs) auto

lemma first_seen_distinct: "distinct (first_seen xs)"
  by (induction xs) (auto simp: distinct_removeAll)

lemma foldl_Set_add:
  "foldl Set_add ks xs = ks @ filter (\<lambda>x. x \<notin> set ks) (first_seen xs)"
proof (induction xs arbitrary: ks)
  case Nil
  then show ?case by simp
next
  case (Cons x xs)
  show ?case
  proof (cases "x \<in> set ks")
    case True
    then have "filter (\<lambda>y. y \<notin> set ks) (removeAll x (first_seen xs)) = filter (\<lambda>y. y \<notin> set ks) (first_seen xs)"
      by (auto simp: removeAll_filter_not_eq intro: filter_cong)
    then show ?thesis using True Cons.IH[of ks] by (simp add: Set_add_def)
  next
    case False
    have "filter (\<lambda>y. y \<notin> set (ks @ [x])) (first_seen xs) = filter (\<lambda>y. y \<notin> set ks) (removeAll x (first_seen xs))"
      by (auto simp: removeAll_filter_not_eq intro: filter_cong)
    then show ?thesis using False Cons.IH[of "ks @ [x]"] by (simp add: Set_add_def)
  qed
qed

lemma Map_set_keys: "map fst (Map_set m k v) = Set_add (map fst m) k"
proof (induction m)
  case Nil
  then show ?case by (simp add: Set_add_def)
next
  case (Cons p m)
  obtain k' v' where p: "p = (k', v')" by (cases p)
  show ?case
  proof (cases "k' = k")
    case True
    then show ?thesis using p by (simp add: Set_add_def)
  next
    case False
    then show ?thesis using p Cons.IH by (simp add: Set_add_def split: if_splits)
  qed
qed

lemma Map_set_keyed:
  "\<forall>(k, v) \<in> set m. f v = k \<Longrightarrow> \<forall>(k, v) \<in> set (Map_set m (f a) a). f v = k"
  by (induction m) (auto split: if_splits)

lemma new_Map_keys_aux:
  "map fst (foldl (\<lambda>m (k, v). Map_set m k v) m es) = foldl Set_add (map fst m) (map fst es)"
  by (induction es arbitrary: m) (auto simp: Map_set_keys)

lemma new_Map_keys: "map fst (new_Map es) = first_seen (map fst es)"
  by (simp add: new_Map_def new_Map_keys_aux foldl_Set_add)

lemma map_of_Map_set: "map_of (Map_set m k v) = (map_of m)(k \<mapsto> v)"
  by (induction m) auto

lemma new_Map_map_of_aux:
  "map_of (foldl (\<lambda>m (k, v). Map_set m k v) m es) = map_of m ++ map_of (rev es)"
proof (induction es arbitrary: m)
  case Nil
  then show ?case by simp
next
  case (Cons e es)
  obtain k v where e: "e = (k, v)" by (cases e)
  have "map_of (foldl (\<lambda>m (k, v). Map_set m k v) (Map_set m k v) es) = map_of (Map_set m k v) ++ map_of (rev es)"
    by (rule Cons.IH)
  also have "\<dots> = map_of m ++ map_of (rev es @ [(k, v)])"
    by (simp add: map_of_Map_set map_add_def fun_eq_iff split: option.splits)
  finally show ?case using e by simp
qed

lemma map_of_rev_keyed:
  "map_of (rev (map (\<lambda>x. (f x, x)) xs)) k =
     (if filter (\<lambda>x. f x = k) xs = [] then None else Some (last (filter (\<lambda>x. f x = k) xs)))"
  by (induction xs rule: rev_induct) auto

lemma keyed_values: "\<forall>(k, v) \<in> set m. f v = k \<Longrightarrow> map f (map snd m) = map fst m"
  by (induction m) auto

lemma new_Map_keyed:
  "\<forall>(k, v) \<in> set (new_Map (map (\<lambda>item. (f item, item)) xs)). f v = k"
proof -
  have "\<forall>(k, v) \<in> set (foldl (\<lambda>m (k, v). Map_set m k v) m (map (\<lambda>item. (f item, item)) as)). f v = k"
    if "\<forall>(k, v) \<in> set m. f v = k" for m and as
    using that
  proof (induction as arbitrary: m)
    case Nil
    then show ?case by simp
  next
    case (Cons a as)
    have "\<forall>(k, v) \<in> set (Map_set m (f a) a). f v = k"
      using Cons.prems by (rule Map_set_keyed)
    from Cons.IH[OF this] show ?case by simp
  qed
  from this[of "[]" xs] show ?thesis by (simp add: new_Map_def)
qed

lemma uniqueArticles_urls: "map url (uniqueArticles articles) = first_seen (map url articles)"
proof -
  have "map url (map snd (new_Map (map (\<lambda>item. (url item, item)) articles)))
        = map fst (new_Map (map (\<lambda>item. (url item, item)) articles))"
    by (rule keyed_values[OF new_Map_keyed])
  also have "\<dots> = first_seen (map url articles)"
    by (simp add: new_Map_keys comp_def)
  finally show ?thesis by (simp add: uniqueArticles_def Map_values_def)
qed

lemma uniqueArticles_distinct: "distinct (map url (uniqueArticles articles))"
  by (simp add: uniqueArticles_urls first_seen_distinct)

lemma uniqueArticles_last:
  assumes "a \<in> set (uniqueArticles articles)"
  shows "a = last (filter (\<lambda>b. url b = url a) articles)"
proof -
  let ?es = "map (\<lambda>item. (url item, item)) articles"
  let ?M = "new_Map ?es"
  from assms obtain k where k: "(k, a) \<in> set ?M"
    by (auto simp: uniqueArticles_def Map_values_def)
  have "case (k, a) of (k, v) \<Rightarrow> url v = k"
    by (rule bspec[OF new_Map_keyed k])
  then have ka: "url a = k" by simp
  have "distinct (map fst ?M)" by (simp add: new_Map_keys first_seen_distinct)
  then have "map_of ?M k = Some a" using k by (rule map_of_is_SomeI)
  moreover have "map_of ?M = map_of (rev ?es)"
    using new_Map_map_of_aux[of "[]" ?es] by (simp add: new_Map_def)
  ultimately have M: "map_of (rev ?es) k = Some a" by simp
  note F = map_of_rev_keyed[of url articles k]
  have "a = last (filter (\<lambda>b. url b = k) articles)"
  proof (cases "filter (\<lambda>x. url x = k) articles = []")
    case True
    with F M show ?thesis by simp
  next
    case False
    with F M show ?thesis by simp
  qed
  then show ?thesis unfolding ka .
qed

lemma slice0_map: "map f (slice0 n xs) = slice0 n (map f xs)"
  by (simp add: slice0_def take_map)

lemma set_slice0: "set (slice0 n xs) \<subseteq> set xs"
  by (auto simp: slice0_def dest: in_set_takeD)

lemma distinct_slice0: "distinct (map f xs) \<Longrightarrow> distinct (map f (slice0 n xs))"
  by (simp add: slice0_def distinct_take flip: take_map)

lemma limitedArticles_distinct:
  "distinct (map url (limitedArticles maxArticles articleElements))"
  unfolding limitedArticles_def by (rule distinct_slice0[OF uniqueArticles_distinct])

lemma limitedArticles_urls:
  "map url (limitedArticles maxArticles articleElements) =
     slice0 maxArticles (first_seen (map url (listArticles articleElements)))"
  unfolding limitedArticles_def
  by (subst slice0_map, subst uniqueArticles_urls) (rule refl)

lemma limitedArticles_last:
  "\<forall>a \<in> set (limitedArticles maxArticles articleElements).
      a = last (filter (\<lambda>b. url b = url a) (listArticles articleElements))"
proof
  fix a assume "a \<in> set (limitedArticles maxArticles articleElements)"
  then have "a \<in> set (slice0 maxArticles (uniqueArticles (listArticles articleElements)))"
    unfolding limitedArticles_def .
  then have "a \<in> set (uniqueArticles (listArticles articleElements))"
    by (rule subsetD[OF set_slice0])
  then show "a = last (filter (\<lambda>b. url b = url a) (listArticles articleElements))"
    by (rule uniqueArticles_last)
qed

text \<open>
  C1, as the code has it. The entries that go to the detail stage have no duplicate
  address and keep the order in which the addresses are first seen (truncated by
  \<open>slice\<close>); of the entries that share an address the one kept is the last of them
  in the listing, not the first.
\<close>

theorem limitedArticles_dedup:
  "distinct (map url (limitedArticles maxArticles articleElements))
   \<and> map url (limitedArticles maxArticles articleElements) =
       slice0 maxArticles (first_seen (map url (listArticles articleElements)))
   \<and> (\<forall>a \<in> set (limitedArticles maxArticles articleElements).
         a = last (filter (\<lambda>b. url b = url a) (listArticles articleElements)))"
  by (intro conjI) (rule limitedArticles_distinct, rule limitedArticles_urls, rule limitedArticles_last)

lemma dup_listing_listed:
  "listArticles dup_listing =
     [\<lparr>title = ascii ''First'', url = ascii ''https://www.rbc.ru/politics/1''\<rparr>,
      \<lparr>title = ascii ''Other'', url = ascii ''https://www.rbc.ru/society/2''\<rparr>,
      \<lparr>title = ascii ''Second'', url = ascii ''https://www.rbc.ru/politics/1''\<rparr>]"
  by (simp add: listArticles_def dup_listing_def trim_def isWhiteSpace_def ascii_def)

lemma dup_listing_limited:
  "limitedArticles 10 dup_listing =
     [\<lparr>title = ascii ''Second'', url = ascii ''https://www.rbc.ru/politics/1''\<rparr>,
      \<lparr>title = ascii ''Other'', url = ascii ''https://www.rbc.ru/society/2''\<rparr>]"
  unfolding limitedArticles_def dup_listing_listed
  by (simp add: uniqueArticles_def new_Map_def Map_values_def slice0_def ascii_def)


text \<open>The theorem at a listing with a duplicate address.\<close>

theorem limitedArticles_dedup_witness:
  "\<lparr>title = ascii ''Second'', url = ascii ''https://www.rbc.ru/politics/1''\<rparr>
     \<in> set (limitedArticles 10 dup_listing)
   \<and> \<lparr>title = ascii ''Second'', url = ascii ''https://www.rbc.ru/politics/1''\<rparr> =
       last (filter (\<lambda>b. url b = ascii ''https://www.rbc.ru/politics/1'') (listArticles dup_listing))
   \<and> map url (limitedArticles 10 dup_listing) =
       [ascii ''https://www.rbc.ru/politics/1'', ascii ''https://www.rbc.ru/society/2'']"
proof -
  let ?a = "\<lparr>title = ascii ''Second'', url = ascii ''https://www.rbc.ru/politics/1''\<rparr>"
  have m: "?a \<in> set (limitedArticles 10 dup_listing)"
    by (simp add: dup_listing_limited)
  from limitedArticles_dedup[of 10 dup_listing] m
  have "?a = last (filter (\<lambda>b. url b = url ?a) (listArticles dup_listing))"
    by blast
  then have "?a = last (filter (\<lambda>b. url b = ascii ''https://www.rbc.ru/politics/1'') (listArticles dup_listing))"
    by simp
  moreover have "map url (limitedArticles 10 dup_listing) =
       [ascii ''https://www.rbc.ru/politics/1'', ascii ''https://www.rbc.ru/society/2'']"
    by (simp add: dup_listing_limited)
  ultimately show ?thesis using m by blast
qed

text \<open>
  C1 as stated fails: of two entries with the same address the first is dropped and the
  second is kept, at the first one's place.
\<close>

theorem first_occurrence_kept_counterexample:
  "listArticles dup_listing ! 0 =
     \<lparr>title = ascii ''First'', url = ascii ''https://www.rbc.ru/politics/1''\<rparr>
   \<and> limitedArticles 10 dup_listing =
     [\<lparr>title = ascii ''Second'', url = ascii ''https://www.rbc.ru/politics/1''\<rparr>,
      \<lparr>title = ascii ''Other'', url = ascii ''https://www.rbc.ru/society/2''\<rparr>]
   \<and> \<lparr>title = ascii ''First'', url = ascii ''https://www.rbc.ru/politics/1''\<rparr>
       \<notin> set (limitedArticles 10 dup_listing)"
  unfolding dup_listing_limited dup_listing_listed by (simp add: ascii_def)

subsection \<open>Promise.all\<close>

lemma settle_sound:
  "settle outcomes order vals = Inr vals' \<Longrightarrow> length vals = length outcomes \<Longrightarrow>
   (\<forall>i<length outcomes. \<forall>v. vals ! i = Some v \<longrightarrow> outcomes ! i = Inr v) \<Longrightarrow>
   length vals' = length outcomes \<and>
   (\<forall>i<length outcomes. \<forall>v. vals' ! i = Some v \<longrightarrow> outcomes ! i = Inr v)"
proof (induction order arbitrary: vals)
  case Nil
  then show ?case by simp
next
  case (Cons j order)
  show ?case
  proof (cases "j < length outcomes")
    case False
    then have "settle outcomes order vals = Inr vals'" using Cons.prems(1) by simp
    from Cons.IH[OF this Cons.prems(2) Cons.prems(3)] show ?thesis .
  next
    case True
    show ?thesis
    proof (cases "outcomes ! j")
      case (Inl e)
      then show ?thesis using Cons.prems(1) True by simp
    next
      case (Inr v)
      then have s: "settle outcomes order (vals[j := Some v]) = Inr vals'"
        using Cons.prems(1) True by simp
      have l: "length (vals[j := Some v]) = length outcomes" using Cons.prems(2) by simp
      have inv: "\<forall>i<length outcomes. \<forall>w. (vals[j := Some v]) ! i = Some w \<longrightarrow> outcomes ! i = Inr w"
      proof (intro allI impI)
        fix i w assume i: "i < length outcomes" and w: "(vals[j := Some v]) ! i = Some w"
        show "outcomes ! i = Inr w"
        proof (cases "i = j")
          case True
          then show ?thesis using w Inr Cons.prems(2) i by simp
        next
          case False
          then have "vals ! i = Some w" using w by simp
          then show ?thesis using Cons.prems(3) i by simp
        qed
      qed
      from Cons.IH[OF s l inv] show ?thesis .
    qed
  qed
qed

lemma settle_filled:
  "settle outcomes order vals = Inr vals' \<Longrightarrow> length vals = length outcomes \<Longrightarrow>
   i < length outcomes \<Longrightarrow> i \<in> set order \<or> vals ! i \<noteq> None \<Longrightarrow> vals' ! i \<noteq> None"
proof (induction order arbitrary: vals)
  case Nil
  then show ?case by simp
next
  case (Cons j order)
  show ?case
  proof (cases "j < length outcomes")
    case False
    then have s: "settle outcomes order vals = Inr vals'" using Cons.prems(1) by simp
    have "i \<noteq> j" using False Cons.prems(3) by auto
    then have "i \<in> set order \<or> vals ! i \<noteq> None" using Cons.prems(4) by simp
    from Cons.IH[OF s Cons.prems(2) Cons.prems(3) this] show ?thesis .
  next
    case True
    show ?thesis
    proof (cases "outcomes ! j")
      case (Inl e)
      then show ?thesis using Cons.prems(1) True by simp
    next
      case (Inr v)
      then have s: "settle outcomes order (vals[j := Some v]) = Inr vals'"
        using Cons.prems(1) True by simp
      have l: "length (vals[j := Some v]) = length outcomes" using Cons.prems(2) by simp
      have "i \<in> set order \<or> (vals[j := Some v]) ! i \<noteq> None"
      proof (cases "i = j")
        case True
        then show ?thesis using Cons.prems(2) Cons.prems(3) by simp
      next
        case False
        then show ?thesis using Cons.prems(4) by simp
      qed
      from Cons.IH[OF s l Cons.prems(3) this] show ?thesis .
    qed
  qed
qed

lemma settle_rejects:
  "settle outcomes order vals = Inl e \<Longrightarrow> \<exists>i<length outcomes. outcomes ! i = Inl e"
proof (induction order arbitrary: vals)
  case Nil
  then show ?case by simp
next
  case (Cons j order)
  show ?case
  proof (cases "j < length outcomes")
    case False
    then have "settle outcomes order vals = Inl e" using Cons.prems by simp
    then show ?thesis by (rule Cons.IH)
  next
    case True
    show ?thesis
    proof (cases "outcomes ! j")
      case (Inl e')
      then have "e' = e" using Cons.prems True by simp
      then show ?thesis using Inl True by auto
    next
      case (Inr v)
      then have "settle outcomes order (vals[j := Some v]) = Inl e"
        using Cons.prems True by simp
      then show ?thesis by (rule Cons.IH)
    qed
  qed
qed

lemma Promise_all_sound:
  assumes "Promise_all outcomes order = Some (Inr recs)"
  shows "length recs = length outcomes \<and> (\<forall>i<length outcomes. outcomes ! i = Inr (recs ! i))"
proof -
  from assms obtain vals where s: "settle outcomes order (replicate (length outcomes) None) = Inr vals"
    and full: "list_all (\<lambda>v. v \<noteq> None) vals" and recs: "recs = map the vals"
    by (auto simp: Promise_all_def split: sum.splits if_splits)
  have "length vals = length outcomes \<and>
     (\<forall>i<length outcomes. \<forall>v. vals ! i = Some v \<longrightarrow> outcomes ! i = Inr v)"
    by (rule settle_sound[OF s]) simp_all
  then have len: "length vals = length outcomes"
    and inv: "\<forall>i<length outcomes. \<forall>v. vals ! i = Some v \<longrightarrow> outcomes ! i = Inr v"
    by simp_all
  have "outcomes ! i = Inr (recs ! i)" if i: "i < length outcomes" for i
  proof -
    have "vals ! i \<noteq> None" using full i len by (simp add: list_all_length)
    then obtain v where v: "vals ! i = Some v" by auto
    then have "outcomes ! i = Inr v" using inv i by simp
    moreover have "recs ! i = v" using recs v i len by simp
    ultimately show ?thesis by simp
  qed
  then show ?thesis using len recs by simp
qed

lemma Promise_all_returns:
  assumes "{..<length outcomes} \<subseteq> set order"
  shows "Promise_all outcomes order \<noteq> None"
proof (cases "settle outcomes order (replicate (length outcomes) None)")
  case (Inl e)
  then show ?thesis by (simp add: Promise_all_def)
next
  case (Inr vals)
  have len: "length vals = length outcomes"
    using settle_sound[OF Inr] by simp
  have "vals ! i \<noteq> None" if "i < length outcomes" for i
  proof (rule settle_filled[OF Inr _ that])
    show "length (replicate (length outcomes) None) = length outcomes" by simp
    show "i \<in> set order \<or> replicate (length outcomes) None ! i \<noteq> None"
      using assms that by auto
  qed
  then have "list_all (\<lambda>v. v \<noteq> None) vals" using len by (simp add: list_all_length)
  then show ?thesis using Inr by (simp add: Promise_all_def)
qed

lemma Promise_all_resolves:
  assumes cover: "{..<length outcomes} \<subseteq> set order"
    and ok: "\<forall>i<length outcomes. outcomes ! i = Inr (f i)"
  shows "Promise_all outcomes order = Some (Inr (map f [0..<length outcomes]))"
proof -
  from Promise_all_returns[OF cover] obtain r where r: "Promise_all outcomes order = Some r"
    by auto
  show ?thesis
  proof (cases r)
    case (Inl e)
    then have "settle outcomes order (replicate (length outcomes) None) = Inl e"
      using r by (auto simp: Promise_all_def split: sum.splits if_splits)
    then obtain i where "i < length outcomes" "outcomes ! i = Inl e"
      using settle_rejects by blast
    then show ?thesis using ok by simp
  next
    case (Inr recs)
    then have s: "length recs = length outcomes \<and> (\<forall>i<length outcomes. outcomes ! i = Inr (recs ! i))"
      using Promise_all_sound r by blast
    have "recs = map f [0..<length outcomes]"
    proof (rule nth_equalityI)
      show "length recs = length (map f [0..<length outcomes])" using s by simp
      fix i assume "i < length recs"
      then have i: "i < length outcomes" using s by simp
      then have "Inr (recs ! i) = (Inr (f i) :: jsvalue + 'a)" using s ok by metis
      then show "recs ! i = map f [0..<length outcomes] ! i" using i by simp
    qed
    then show ?thesis using r Inr by simp
  qed
qed

lemma length_detailedArticlesPromises:
  "length (detailedArticlesPromises toLowerCase pgs stubs) = length stubs"
  by (simp add: detailedArticlesPromises_def)

lemma nth_detailedArticlesPromises:
  "i < length stubs \<Longrightarrow>
     detailedArticlesPromises toLowerCase pgs stubs ! i = processArticle toLowerCase (pgs i) (stubs ! i)"
  by (simp add: detailedArticlesPromises_def)

subsection \<open>The task of one article\<close>

lemma config_maxRetries_3: "config_maxRetries = int 3"
  by (simp add: config_maxRetries_def)

lemma processArticle_success:
  assumes h_setup: "page_setup env = None"
    and m: "1 \<le> m" "m \<le> 3"
    and h_before: "\<forall>a. 1 \<le> a \<and> a < m \<longrightarrow> goto_attempt env a \<noteq> None"
    and h_at: "goto_attempt env m = None"
    and h_res: "page_result env = Inr doc"
  shows "processArticle toLowerCase env article = Inr (detailedArticle toLowerCase article doc (now env))"
proof -
  let ?fn = "\<lambda>k. case goto_attempt env k of Some e \<Rightarrow> Inl e | None \<Rightarrow> (Inr () :: jsvalue + unit)"
  have "\<forall>k. 1 \<le> k \<and> k < m \<longrightarrow> (\<exists>e. ?fn k = Inl e)"
  proof (intro allI impI)
    fix k assume "1 \<le> k \<and> k < m"
    then have "goto_attempt env k \<noteq> None" using h_before by simp
    then obtain e where "goto_attempt env k = Some e" by auto
    then show "\<exists>e. ?fn k = Inl e" by simp
  qed
  moreover have "?fn m = Inr ()" using h_at by simp
  moreover have "int m \<le> config_maxRetries" using m by (simp add: config_maxRetries_def)
  ultimately have "tryWithRetry ?fn config_maxRetries config_retryDelay =
      (Inr (), concat (map (\<lambda>k. [Invoke k, Delay config_retryDelay]) [1..<m]) @ [Invoke m])"
    using tryWithRetry_success[of m config_maxRetries ?fn "()" config_retryDelay] m(1) by simp
  then have "fst (tryWithRetry ?fn config_maxRetries config_retryDelay) = Inr ()" by simp
  then show ?thesis using h_setup h_res by (simp add: processArticle_def)
qed

lemma processArticle_degraded:
  assumes h_setup: "page_setup env = None"
    and h_fail: "\<forall>a. 1 \<le> a \<and> a \<le> 3 \<longrightarrow> goto_attempt env a = Some (err a)"
    and h_err: "err 3 \<noteq> Undefined" "err 3 \<noteq> Null"
    and h_close: "handler_close env = None"
  shows "processArticle toLowerCase env article = Inr (degradedArticle article (err 3) (now env))"
proof -
  let ?fn = "\<lambda>k. case goto_attempt env k of Some e \<Rightarrow> Inl e | None \<Rightarrow> (Inr () :: jsvalue + unit)"
  have "\<forall>k. 1 \<le> k \<and> k \<le> 3 \<longrightarrow> ?fn k = Inl (err k)" using h_fail by simp
  then have "tryWithRetry ?fn (int 3) config_retryDelay =
      (Inl (err 3), concat (map (\<lambda>k. [Invoke k, Delay config_retryDelay]) [1..<Suc 3]))"
    using tryWithRetry_failure[of 3 ?fn err config_retryDelay] by simp
  then have "fst (tryWithRetry ?fn config_maxRetries config_retryDelay) = Inl (err 3)"
    unfolding config_maxRetries_3 by simp
  then show ?thesis using h_setup h_err h_close
    by (simp add: processArticle_def onError_def logError_def)
qed

lemma onError_cases:
  "onError env article error = Inr r \<Longrightarrow>
     error \<noteq> Undefined \<and> error \<noteq> Null \<and> r = degradedArticle article error (now env)"
  by (simp add: onError_def logError_def split: option.splits if_splits)

lemma processArticle_cases:
  assumes "processArticle toLowerCase env article = Inr r"
  shows "(\<exists>doc. r = detailedArticle toLowerCase article doc (now env))
       \<or> (\<exists>e. r = degradedArticle article e (now env))"
proof (cases "fst (tryWithRetry (\<lambda>k. case goto_attempt env k of Some e \<Rightarrow> Inl e | None \<Rightarrow> Inr ())
                       config_maxRetries config_retryDelay)")
  case (Inl error)
  then have "onError env article error = Inr r"
    using assms by (simp add: processArticle_def split: option.splits)
  then show ?thesis using onError_cases by blast
next
  case (Inr u)
  show ?thesis
  proof (cases "page_result env")
    case (Inl error)
    then have "onError env article error = Inr r"
      using assms Inr by (simp add: processArticle_def split: option.splits)
    then show ?thesis using onError_cases by blast
  next
    case inr: (Inr doc)
    then have "r = detailedArticle toLowerCase article doc (now env)"
      using assms Inr by (simp add: processArticle_def split: option.splits)
    then show ?thesis by blast
  qed
qed

subsection \<open>Fields of the records\<close>

lemma detailedArticle_fields:
  "obj_get (detailedArticle toLowerCase article doc parsedAt) (ascii ''title'') = Str (title article)"
  "obj_get (detailedArticle toLowerCase article doc parsedAt) (ascii ''url'') = Str (url article)"
  "obj_get (detailedArticle toLowerCase article doc parsedAt) (ascii ''content'') = Str (detailsContent doc)"
  "obj_get (detailedArticle toLowerCase article doc parsedAt) (ascii ''sentiment'') =
     Obj (getTextSentiment toLowerCase (detailsContent doc))"
  "obj_get (detailedArticle toLowerCase article doc parsedAt) (ascii ''error'') = Undefined"
  by (simp_all add: detailedArticle_explicit extractDetails_def Let_def) (simp_all add: ascii_def)

lemma degradedArticle_fields:
  "obj_get (degradedArticle article error parsedAt) (ascii ''title'') = Str (title article)"
  "obj_get (degradedArticle article error parsedAt) (ascii ''url'') = Str (url article)"
  "obj_get (degradedArticle article error parsedAt) (ascii ''content'') = Str []"
  "obj_get (degradedArticle article error parsedAt) (ascii ''author'') = Str RBK"
  "obj_get (degradedArticle article error parsedAt) (ascii ''tags'') = Arr []"
  "obj_get (degradedArticle article error parsedAt) (ascii ''hasVideo'') = Bool False"
  "obj_get (degradedArticle article error parsedAt) (ascii ''sentiment'') = Undefined"
  "obj_get (degradedArticle article error parsedAt) (ascii ''error'') = get_prop error (ascii ''message'')"
  by (simp_all add: degradedArticle_explicit RBK_def) (simp_all add: ascii_def)

lemma degradedArticle_has_error:
  "has_key (degradedArticle article error parsedAt) (ascii ''error'')"
  by (simp add: has_key_def degradedArticle_keys)

lemma degradedArticle_no_sentiment:
  "\<not> has_key (degradedArticle article error parsedAt) (ascii ''sentiment'')"
  by (simp add: has_key_def degradedArticle_keys) (simp add: ascii_def)

lemma detailedArticle_has_sentiment:
  "has_key (detailedArticle toLowerCase article doc parsedAt) (ascii ''sentiment'')"
  by (simp add: has_key_def detailedArticle_keys)


subsection \<open>A run of parseRBCWebsite\<close>

lemma navigation_within_budget:
  assumes "1 \<le> m" "m \<le> 3" "\<forall>a. 1 \<le> a \<and> a < m \<longrightarrow> nav a \<noteq> None" "nav m = None"
  shows "fst (tryWithRetry (\<lambda>k. case nav k of Some e \<Rightarrow> Inl e | None \<Rightarrow> Inr ())
               config_maxRetries config_retryDelay) = Inr ()"
proof -
  let ?fn = "\<lambda>k. case nav k of Some e \<Rightarrow> Inl e | None \<Rightarrow> (Inr () :: jsvalue + unit)"
  have "\<forall>k. 1 \<le> k \<and> k < m \<longrightarrow> (\<exists>e. ?fn k = Inl e)"
  proof (intro allI impI)
    fix k assume "1 \<le> k \<and> k < m"
    then have "nav k \<noteq> None" using assms(3) by simp
    then obtain e where "nav k = Some e" by auto
    then show "\<exists>e. ?fn k = Inl e" by simp
  qed
  moreover have "?fn m = Inr ()" using assms(4) by simp
  moreover have "int m \<le> config_maxRetries" using assms(2) by (simp add: config_maxRetries_def)
  ultimately have "tryWithRetry ?fn config_maxRetries config_retryDelay =
      (Inr (), concat (map (\<lambda>k. [Invoke k, Delay config_retryDelay]) [1..<m]) @ [Invoke m])"
    using tryWithRetry_success[of m config_maxRetries ?fn "()" config_retryDelay] assms(1) by simp
  then show ?thesis by simp
qed

lemma parseRBC_try_listed:
  assumes "listing_result env = Inr els"
    and "1 \<le> m" "m \<le> 3" "\<forall>a. 1 \<le> a \<and> a < m \<longrightarrow> listing_goto env a \<noteq> None"
      "listing_goto env m = None"
  shows "parseRBC_try toLowerCase env n =
           Promise_all (detailedArticlesPromises toLowerCase (pages env) (limitedArticles n els))
             (completion env)"
  using navigation_within_budget[OF assms(2-5)] assms(1) by (simp add: parseRBC_try_def)

lemma parseRBC_try_records:
  assumes "parseRBC_try toLowerCase env n = Some (Inr recs)"
  shows "\<exists>els. listing_result env = Inr els \<and>
           Promise_all (detailedArticlesPromises toLowerCase (pages env) (limitedArticles n els))
             (completion env) = Some (Inr recs)"
  using assms by (simp add: parseRBC_try_def split: sum.splits)

lemma parseRBCWebsite_records:
  assumes "parseRBCWebsite toLowerCase env n = Some (Inr recs)"
  shows "recs = [] \<or> parseRBC_try toLowerCase env n = Some (Inr recs)"
proof (cases "parseRBC_try toLowerCase env n")
  case None
  then show ?thesis using assms by (simp add: parseRBCWebsite_def)
next
  case (Some r)
  show ?thesis
  proof (cases r)
    case (Inl error)
    then have "recs = []"
      using assms Some by (simp add: parseRBCWebsite_def Let_def split: option.splits)
    then show ?thesis by simp
  next
    case (Inr recs')
    then have "recs' = recs"
      using assms Some by (simp add: parseRBCWebsite_def Let_def split: option.splits)
    then show ?thesis using Some Inr by simp
  qed
qed

lemma parseRBCWebsite_nth:
  assumes run: "parseRBCWebsite toLowerCase env n = Some (Inr recs)"
    and listing: "listing_result env = Inr els"
    and i: "i < length recs"
  shows "i < length (limitedArticles n els) \<and>
         processArticle toLowerCase (pages env i) (limitedArticles n els ! i) = Inr (recs ! i)"
proof -
  have "recs \<noteq> []" using i by auto
  then have "parseRBC_try toLowerCase env n = Some (Inr recs)"
    using parseRBCWebsite_records[OF run] by simp
  then obtain els' where "listing_result env = Inr els'"
    and P: "Promise_all (detailedArticlesPromises toLowerCase (pages env) (limitedArticles n els'))
             (completion env) = Some (Inr recs)"
    using parseRBC_try_records by blast
  then have els': "els' = els" using listing by simp
  note S = Promise_all_sound[OF P, unfolded els' length_detailedArticlesPromises]
  have len: "length recs = length (limitedArticles n els)" using S by simp
  then have il: "i < length (limitedArticles n els)" using i by simp
  have "detailedArticlesPromises toLowerCase (pages env) (limitedArticles n els) ! i = Inr (recs ! i)"
    using S il by simp
  then show ?thesis using il by (simp add: nth_detailedArticlesPromises)
qed

lemma parseRBCWebsite_returns:
  assumes "\<forall>els. listing_result env = Inr els \<longrightarrow>
             {..<length (limitedArticles n els)} \<subseteq> set (completion env)"
  shows "parseRBCWebsite toLowerCase env n \<noteq> None"
proof -
  have "parseRBC_try toLowerCase env n \<noteq> None"
  proof (cases "fst (tryWithRetry (\<lambda>k. case listing_goto env k of Some e \<Rightarrow> Inl e | None \<Rightarrow> Inr ())
                  config_maxRetries config_retryDelay)")
    case (Inl e)
    then show ?thesis by (simp add: parseRBC_try_def)
  next
    case (Inr u)
    show ?thesis
    proof (cases "listing_result env")
      case (Inl e)
      then show ?thesis using Inr by (simp add: parseRBC_try_def)
    next
      case inr: (Inr els)
      have "Promise_all (detailedArticlesPromises toLowerCase (pages env) (limitedArticles n els))
             (completion env) \<noteq> None"
        by (rule Promise_all_returns) (use assms inr in \<open>simp add: length_detailedArticlesPromises\<close>)
      then show ?thesis using Inr inr by (simp add: parseRBC_try_def)
    qed
  qed
  then show ?thesis by (auto simp: parseRBCWebsite_def Let_def split: option.splits)
qed

lemma parseRBC_isolated:
  assumes listing: "listing_result env = Inr els"
    and lnav: "1 \<le> lm" "lm \<le> 3" "\<forall>a. 1 \<le> a \<and> a < lm \<longrightarrow> listing_goto env a \<noteq> None"
      "listing_goto env lm = None"
    and bclose: "browser_close env = None"
    and cover: "{..<length (limitedArticles n els)} \<subseteq> set (completion env)"
    and pages_open: "\<forall>i<length (limitedArticles n els). page_setup (pages env i) = None"
    and failing: "\<forall>a. 1 \<le> a \<and> a \<le> 3 \<longrightarrow> goto_attempt (pages env k) a = Some (err a)"
    and thrown: "err 3 \<noteq> Undefined" "err 3 \<noteq> Null"
    and hclose: "handler_close (pages env k) = None"
    and others: "\<forall>i<length (limitedArticles n els). i \<noteq> k \<longrightarrow>
        (\<exists>m. 1 \<le> m \<and> m \<le> 3 \<and> (\<forall>a. 1 \<le> a \<and> a < m \<longrightarrow> goto_attempt (pages env i) a \<noteq> None)
             \<and> goto_attempt (pages env i) m = None)
        \<and> page_result (pages env i) = Inr (doc i)"
  shows "parseRBCWebsite toLowerCase env n =
    Some (Inr (map (\<lambda>i. if i = k
                         then degradedArticle (limitedArticles n els ! i) (err 3) (now (pages env i))
                         else detailedArticle toLowerCase (limitedArticles n els ! i) (doc i)
                                (now (pages env i)))
                 [0..<length (limitedArticles n els)]))"
proof -
  let ?stubs = "limitedArticles n els"
  let ?f = "\<lambda>i. if i = k
                         then degradedArticle (?stubs ! i) (err 3) (now (pages env i))
                         else detailedArticle toLowerCase (?stubs ! i) (doc i) (now (pages env i))"
  let ?out = "detailedArticlesPromises toLowerCase (pages env) ?stubs"
  have each: "\<forall>i<length ?out. ?out ! i = Inr (?f i)"
  proof (intro allI impI)
    fix i assume "i < length ?out"
    then have i: "i < length ?stubs" by (simp add: length_detailedArticlesPromises)
    have su: "page_setup (pages env i) = None" using pages_open i by simp
    show "?out ! i = Inr (?f i)"
    proof (cases "i = k")
      case True
      have "processArticle toLowerCase (pages env k) (?stubs ! k) =
              Inr (degradedArticle (?stubs ! k) (err 3) (now (pages env k)))"
        using su True by (intro processArticle_degraded failing thrown hclose) simp
      then show ?thesis using True i by (simp add: nth_detailedArticlesPromises)
    next
      case False
      from others i False obtain m where m: "1 \<le> m" "m \<le> 3"
        "\<forall>a. 1 \<le> a \<and> a < m \<longrightarrow> goto_attempt (pages env i) a \<noteq> None"
        "goto_attempt (pages env i) m = None" and res: "page_result (pages env i) = Inr (doc i)"
        by blast
      have "processArticle toLowerCase (pages env i) (?stubs ! i) =
              Inr (detailedArticle toLowerCase (?stubs ! i) (doc i) (now (pages env i)))"
        by (rule processArticle_success[OF su m res])
      then show ?thesis using False i by (simp add: nth_detailedArticlesPromises)
    qed
  qed
  have cov: "{..<length ?out} \<subseteq> set (completion env)"
    using cover by (simp add: length_detailedArticlesPromises)
  have "Promise_all ?out (completion env) = Some (Inr (map ?f [0..<length ?out]))"
    by (rule Promise_all_resolves[OF cov each])
  then have "parseRBC_try toLowerCase env n = Some (Inr (map ?f [0..<length ?stubs]))"
    using parseRBC_try_listed[OF listing lnav] by (simp add: length_detailedArticlesPromises)
  then show ?thesis using bclose by (simp add: parseRBCWebsite_def)
qed


subsection \<open>Failure isolation\<close>

lemma parseRBC_isolated_conj:
  assumes "listing_result env = Inr els
    \<and> 1 \<le> lm \<and> lm \<le> 3 \<and> (\<forall>a. 1 \<le> a \<and> a < lm \<longrightarrow> listing_goto env a \<noteq> None)
    \<and> listing_goto env lm = None
    \<and> browser_close env = None
    \<and> k < length (limitedArticles n els)
    \<and> {..<length (limitedArticles n els)} \<subseteq> set (completion env)
    \<and> (\<forall>i<length (limitedArticles n els). page_setup (pages env i) = None)
    \<and> (\<forall>a. 1 \<le> a \<and> a \<le> 3 \<longrightarrow> goto_attempt (pages env k) a = Some (err a))
    \<and> err 3 \<noteq> Undefined \<and> err 3 \<noteq> Null
    \<and> handler_close (pages env k) = None
    \<and> (\<forall>i<length (limitedArticles n els). i \<noteq> k \<longrightarrow>
         (\<exists>m. 1 \<le> m \<and> m \<le> 3 \<and> (\<forall>a. 1 \<le> a \<and> a < m \<longrightarrow> goto_attempt (pages env i) a \<noteq> None)
              \<and> goto_attempt (pages env i) m = None)
         \<and> page_result (pages env i) = Inr (doc i))"
  shows "parseRBCWebsite toLowerCase env n =
    Some (Inr (map (\<lambda>i. if i = k
                         then degradedArticle (limitedArticles n els ! i) (err 3) (now (pages env i))
                         else detailedArticle toLowerCase (limitedArticles n els ! i) (doc i)
                                (now (pages env i)))
                 [0..<length (limitedArticles n els)]))"
  using assms by (intro parseRBC_isolated[where lm = lm]) simp_all


subsection \<open>The detail loop of the Meduza parser\<close>

lemma catchArticle_error_object:
  "error \<noteq> Undefined \<Longrightarrow> error \<noteq> Null \<Longrightarrow> catchArticle error a = Inr (article_object a)"
  by (simp add: catchArticle_def)





lemma detailLoop_throws:
  "detailArticle (pgs i) (limited ! i) = Inl error \<Longrightarrow>
     detailLoop pgs limited (i # rest) detailed = Inl error"
  by simp










lemma sample_site_isolated:
  "listing_result sample_site = Inr dup_listing
    \<and> 1 \<le> (1::nat) \<and> (1::nat) \<le> 3 \<and> (\<forall>a. 1 \<le> a \<and> a < 1 \<longrightarrow> listing_goto sample_site a \<noteq> None)
    \<and> listing_goto sample_site 1 = None
    \<and> browser_close sample_site = None
    \<and> 0 < length (limitedArticles 10 dup_listing)
    \<and> {..<length (limitedArticles 10 dup_listing)} \<subseteq> set (completion sample_site)
    \<and> (\<forall>i<length (limitedArticles 10 dup_listing). page_setup (pages sample_site i) = None)
    \<and> (\<forall>a. 1 \<le> a \<and> a \<le> 3 \<longrightarrow> goto_attempt (pages sample_site 0) a = Some timeout_error)
    \<and> timeout_error \<noteq> Undefined \<and> timeout_error \<noteq> Null
    \<and> handler_close (pages sample_site 0) = None
    \<and> (\<forall>i<length (limitedArticles 10 dup_listing). i \<noteq> 0 \<longrightarrow>
         (\<exists>m. 1 \<le> m \<and> m \<le> 3 \<and> (\<forall>a. 1 \<le> a \<and> a < m \<longrightarrow> goto_attempt (pages sample_site i) a \<noteq> None)
              \<and> goto_attempt (pages sample_site i) m = None)
         \<and> page_result (pages sample_site i) = Inr sample_document)"
proof -
  have len: "length (limitedArticles 10 dup_listing) = 2" by (simp add: dup_listing_limited)
  have others: "\<forall>i<length (limitedArticles 10 dup_listing). i \<noteq> 0 \<longrightarrow>
         (\<exists>m. 1 \<le> m \<and> m \<le> 3 \<and> (\<forall>a. 1 \<le> a \<and> a < m \<longrightarrow> goto_attempt (pages sample_site i) a \<noteq> None)
              \<and> goto_attempt (pages sample_site i) m = None)
         \<and> page_result (pages sample_site i) = Inr sample_document"
  proof (intro allI impI conjI)
    fix i assume "i < length (limitedArticles 10 dup_listing)" "i \<noteq> 0"
    have "1 \<le> (3::nat) \<and> (3::nat) \<le> 3
          \<and> (\<forall>a. 1 \<le> a \<and> a < 3 \<longrightarrow> goto_attempt (pages sample_site i) a \<noteq> None)
          \<and> goto_attempt (pages sample_site i) 3 = None"
      using \<open>i \<noteq> 0\<close> by (simp add: sample_site_def flaky_page_def)
    then show "\<exists>m. 1 \<le> m \<and> m \<le> 3 \<and> (\<forall>a. 1 \<le> a \<and> a < m \<longrightarrow> goto_attempt (pages sample_site i) a \<noteq> None)
             \<and> goto_attempt (pages sample_site i) m = None" by (rule exI)
    show "page_result (pages sample_site i) = Inr sample_document"
      using \<open>i \<noteq> 0\<close> by (simp add: sample_site_def flaky_page_def)
  qed
  have cover: "{..<length (limitedArticles 10 dup_listing)} \<subseteq> set (completion sample_site)"
    unfolding len by (auto simp: sample_site_def)
  have rest: "listing_result sample_site = Inr dup_listing"
    "listing_goto sample_site 1 = None" "browser_close sample_site = None"
    "\<forall>i<length (limitedArticles 10 dup_listing). page_setup (pages sample_site i) = None"
    "\<forall>a. 1 \<le> a \<and> a \<le> 3 \<longrightarrow> goto_attempt (pages sample_site 0) a = Some timeout_error"
    "timeout_error \<noteq> Undefined" "timeout_error \<noteq> Null"
    "handler_close (pages sample_site 0) = None"
    by (simp_all add: sample_site_def down_page_def flaky_page_def timeout_error_def)
  show ?thesis using len cover others rest by simp
qed

lemma sample_site_run:
  "parseRBCWebsite toLowerCase_cyr sample_site 10 =
     Some (Inr [degradedArticle \<lparr>title = ascii ''Second'', url = ascii ''https://www.rbc.ru/politics/1''\<rparr>
                  timeout_error (now down_page),
                detailedArticle toLowerCase_cyr
                  \<lparr>title = ascii ''Other'', url = ascii ''https://www.rbc.ru/society/2''\<rparr>
                  sample_document (now flaky_page)])"
proof -
  have len: "length (limitedArticles 10 dup_listing) = 2" by (simp add: dup_listing_limited)
  have "parseRBCWebsite toLowerCase_cyr sample_site 10 =
    Some (Inr (map (\<lambda>i. if i = 0
                         then degradedArticle (limitedArticles 10 dup_listing ! i) timeout_error
                                (now (pages sample_site i))
                         else detailedArticle toLowerCase_cyr (limitedArticles 10 dup_listing ! i)
                                sample_document (now (pages sample_site i)))
                 [0..<length (limitedArticles 10 dup_listing)]))"
    by (rule parseRBC_isolated_conj[OF sample_site_isolated])
  then show ?thesis
    unfolding len by (simp add: dup_listing_limited sample_site_def upt_conv_Cons)
qed








subsection \<open>Order of the records\<close>

lemma processArticle_stub_fields:
  assumes "processArticle toLowerCase env article = Inr r"
  shows "obj_get r (ascii ''title'') = Str (title article) \<and> obj_get r (ascii ''url'') = Str (url article)"
proof -
  from processArticle_cases[OF assms]
  consider doc where "r = detailedArticle toLowerCase article doc (now env)"
    | e where "r = degradedArticle article e (now env)"
    by blast
  then show ?thesis
  proof cases
    case 1
    then show ?thesis by (simp add: detailedArticle_fields)
  next
    case 2
    then show ?thesis by (simp add: degradedArticle_fields)
  qed
qed

text \<open>
  C4. The records a run returns are in the order of the listing: record \<open>i\<close> is what
  the task of stub \<open>i\<close> of the deduplicated, truncated listing resolved to, and it
  carries that stub's title and address, whatever the order in which the tasks settle.
  When every task resolves, \<open>Promise.all\<close> gives the same array for every order that
  settles each task; and a run in which every task settles returns.
\<close>

theorem records_follow_listing_order:
  "(parseRBCWebsite toLowerCase env maxArticles = Some (Inr recs)
      \<and> listing_result env = Inr articleElements \<longrightarrow>
      (\<forall>i<length recs.
          i < length (limitedArticles maxArticles articleElements)
        \<and> processArticle toLowerCase (pages env i) (limitedArticles maxArticles articleElements ! i)
            = Inr (recs ! i)
        \<and> obj_get (recs ! i) (ascii ''title'')
            = Str (title (limitedArticles maxArticles articleElements ! i))
        \<and> obj_get (recs ! i) (ascii ''url'')
            = Str (url (limitedArticles maxArticles articleElements ! i))))
   \<and> ({..<length stubs} \<subseteq> set order
        \<and> (\<forall>i<length stubs. processArticle toLowerCase (pgs i) (stubs ! i) = Inr (result i)) \<longrightarrow>
      Promise_all (detailedArticlesPromises toLowerCase pgs stubs) order
        = Some (Inr (map result [0..<length stubs])))
   \<and> ((\<forall>els. listing_result env = Inr els \<longrightarrow>
          {..<length (limitedArticles maxArticles els)} \<subseteq> set (completion env)) \<longrightarrow>
      parseRBCWebsite toLowerCase env maxArticles \<noteq> None)"
proof (intro conjI impI allI)
  fix i
  assume H: "parseRBCWebsite toLowerCase env maxArticles = Some (Inr recs)
      \<and> listing_result env = Inr articleElements" and i: "i < length recs"
  have N: "i < length (limitedArticles maxArticles articleElements) \<and>
         processArticle toLowerCase (pages env i) (limitedArticles maxArticles articleElements ! i)
           = Inr (recs ! i)"
    by (rule parseRBCWebsite_nth[OF conjunct1[OF H] conjunct2[OF H] i])
  show "i < length (limitedArticles maxArticles articleElements)" using N by (rule conjunct1)
  show "processArticle toLowerCase (pages env i) (limitedArticles maxArticles articleElements ! i)
            = Inr (recs ! i)" using N by (rule conjunct2)
  note F = processArticle_stub_fields[OF conjunct2[OF N]]
  show "obj_get (recs ! i) (ascii ''title'')
            = Str (title (limitedArticles maxArticles articleElements ! i))" using F by (rule conjunct1)
  show "obj_get (recs ! i) (ascii ''url'')
            = Str (url (limitedArticles maxArticles articleElements ! i))" using F by (rule conjunct2)
next
  assume H: "{..<length stubs} \<subseteq> set order
        \<and> (\<forall>i<length stubs. processArticle toLowerCase (pgs i) (stubs ! i) = Inr (result i))"
  let ?out = "detailedArticlesPromises toLowerCase pgs stubs"
  have cov: "{..<length ?out} \<subseteq> set order"
    using H by (simp add: length_detailedArticlesPromises)
  have each: "\<forall>i<length ?out. ?out ! i = Inr (result i)"
    using H by (simp add: length_detailedArticlesPromises nth_detailedArticlesPromises)
  have "Promise_all ?out order = Some (Inr (map result [0..<length ?out]))"
    by (rule Promise_all_resolves[OF cov each])
  then show "Promise_all ?out order = Some (Inr (map result [0..<length stubs]))"
    by (simp add: length_detailedArticlesPromises)
next
  assume "\<forall>els. listing_result env = Inr els \<longrightarrow>
          {..<length (limitedArticles maxArticles els)} \<subseteq> set (completion env)"
  then show "parseRBCWebsite toLowerCase env maxArticles \<noteq> None"
    by (rule parseRBCWebsite_returns)
qed

text \<open>
  The theorem at the run in which the second task settles first, and at the opposite
  order of settling.
\<close>

theorem records_follow_listing_order_witness:
  "parseRBCWebsite toLowerCase_cyr sample_site 10 =
     Some (Inr [degradedArticle \<lparr>title = ascii ''Second'', url = ascii ''https://www.rbc.ru/politics/1''\<rparr>
                  timeout_error (now down_page),
                detailedArticle toLowerCase_cyr
                  \<lparr>title = ascii ''Other'', url = ascii ''https://www.rbc.ru/society/2''\<rparr>
                  sample_document (now flaky_page)])
   \<and> completion sample_site = [1, 0]
   \<and> Promise_all (detailedArticlesPromises toLowerCase_cyr (pages sample_site)
                     (limitedArticles 10 dup_listing)) [0, 1]
       = Some (Inr (map (\<lambda>i. [degradedArticle \<lparr>title = ascii ''Second'', url = ascii ''https://www.rbc.ru/politics/1''\<rparr>
                                 timeout_error (now down_page),
                               detailedArticle toLowerCase_cyr
                                 \<lparr>title = ascii ''Other'', url = ascii ''https://www.rbc.ru/society/2''\<rparr>
                                 sample_document (now flaky_page)] ! i)
                      [0..<length (limitedArticles 10 dup_listing)]))
   \<and> parseRBCWebsite toLowerCase_cyr sample_site 10 \<noteq> None
   \<and> obj_get (degradedArticle \<lparr>title = ascii ''Second'', url = ascii ''https://www.rbc.ru/politics/1''\<rparr>
                  timeout_error (now down_page)) (ascii ''title'')
       = Str (title (limitedArticles 10 dup_listing ! 0))
   \<and> obj_get (detailedArticle toLowerCase_cyr
                  \<lparr>title = ascii ''Other'', url = ascii ''https://www.rbc.ru/society/2''\<rparr>
                  sample_document (now flaky_page)) (ascii ''title'')
       = Str (title (limitedArticles 10 dup_listing ! 1))"
proof -
  let ?d = "degradedArticle \<lparr>title = ascii ''Second'', url = ascii ''https://www.rbc.ru/politics/1''\<rparr>
                  timeout_error (now down_page)"
  let ?s = "detailedArticle toLowerCase_cyr
                  \<lparr>title = ascii ''Other'', url = ascii ''https://www.rbc.ru/society/2''\<rparr>
                  sample_document (now flaky_page)"
  note T = records_follow_listing_order[where env = sample_site and toLowerCase = toLowerCase_cyr
      and maxArticles = 10 and recs = "[?d, ?s]" and articleElements = dup_listing
      and stubs = "limitedArticles 10 dup_listing" and pgs = "pages sample_site"
      and order = "[0, 1]" and result = "\<lambda>i. [?d, ?s] ! i"]
  have len: "length (limitedArticles 10 dup_listing) = 2" by (simp add: dup_listing_limited)
  have h: "parseRBCWebsite toLowerCase_cyr sample_site 10 = Some (Inr [?d, ?s])
      \<and> listing_result sample_site = Inr dup_listing"
    using sample_site_run by (simp add: sample_site_def)
  note A = mp[OF T[THEN conjunct1] h]
  have l0: "0 < length [?d, ?s]" and l1: "1 < length [?d, ?s]" by simp_all
  have a0: "obj_get ([?d, ?s] ! 0) (ascii ''title'') = Str (title (limitedArticles 10 dup_listing ! 0))"
    using A[rule_format, OF l0] by (elim conjE)
  have a1: "obj_get ([?d, ?s] ! 1) (ascii ''title'') = Str (title (limitedArticles 10 dup_listing ! 1))"
    using A[rule_format, OF l1] by (elim conjE)
  have c: "completion sample_site = [1, 0]" by (simp add: sample_site_def)
  have each: "\<forall>i<length (limitedArticles 10 dup_listing).
      processArticle toLowerCase_cyr (pages sample_site i) (limitedArticles 10 dup_listing ! i)
        = Inr ([?d, ?s] ! i)"
  proof (intro allI impI)
    fix i assume "i < length (limitedArticles 10 dup_listing)"
    then have "i < length [?d, ?s]" using len by simp
    from A[rule_format, OF this]
    show "processArticle toLowerCase_cyr (pages sample_site i) (limitedArticles 10 dup_listing ! i)
        = Inr ([?d, ?s] ! i)" by (elim conjE)
  qed
  have cov: "{..<length (limitedArticles 10 dup_listing)} \<subseteq> set [0, 1::nat]"
    unfolding len by auto
  note B = mp[OF T[THEN conjunct2, THEN conjunct1] conjI[OF cov each]]
  have cov': "\<forall>els. listing_result sample_site = Inr els \<longrightarrow>
          {..<length (limitedArticles 10 els)} \<subseteq> set (completion sample_site)"
  proof (intro allI impI)
    fix els assume "listing_result sample_site = Inr els"
    then have "els = dup_listing" by (simp add: sample_site_def)
    then show "{..<length (limitedArticles 10 els)} \<subseteq> set (completion sample_site)"
      using len by (auto simp: sample_site_def)
  qed
  note C = mp[OF T[THEN conjunct2, THEN conjunct2] cov']
  have a0': "obj_get ?d (ascii ''title'') = Str (title (limitedArticles 10 dup_listing ! 0))"
    using a0 by simp
  have a1': "obj_get ?s (ascii ''title'') = Str (title (limitedArticles 10 dup_listing ! 1))"
    using a1 by simp
  show ?thesis
    by (intro conjI) (rule conjunct1[OF h], rule c, rule B, rule C, rule a0', rule a1')
qed


subsection \<open>Sentiment statistics\<close>

lemma labels_distinct:
  "ascii ''positive'' \<noteq> ascii ''negative''" "ascii ''positive'' \<noteq> ascii ''neutral''"
  "ascii ''negative'' \<noteq> ascii ''neutral''"
  by (simp_all add: ascii_def)

lemma getTextSentiment_label:
  "obj_get (getTextSentiment toLowerCase text) (ascii ''sentiment'')
     \<in> {Str (ascii ''positive''), Str (ascii ''negative''), Str (ascii ''neutral'')}"
proof -
  obtain p n where pn: "foldl score_word (0, 0) (split_ws (toLowerCase text)) = (p, n)"
    by (cases "foldl score_word (0, 0) (split_ws (toLowerCase text))")
  have "obj_get (getTextSentiment toLowerCase text) (ascii ''sentiment'') =
      Str (if p > n then ascii ''positive'' else if n > p then ascii ''negative'' else ascii ''neutral'')"
    unfolding getTextSentiment_def Let_def pn by (simp add: ascii_def)
  then show ?thesis by simp
qed

lemma sentimentCount_Cons:
  "sentimentCount (r # rs) l =
     (if truthy (obj_get r (ascii ''sentiment'')) \<and>
         get_prop (obj_get r (ascii ''sentiment'')) (ascii ''sentiment'') = Str l then 1 else 0)
     + sentimentCount rs l"
  by (simp add: sentimentCount_def)

lemma sentimentCount_Nil: "sentimentCount [] l = 0"
  by (simp add: sentimentCount_def)

lemma detailed_kind:
  assumes "r = detailedArticle toLowerCase article doc parsedAt"
  shows "has_key r (ascii ''sentiment'') \<and> \<not> has_key r (ascii ''error'')
     \<and> truthy (obj_get r (ascii ''sentiment''))
     \<and> get_prop (obj_get r (ascii ''sentiment'')) (ascii ''sentiment'')
         \<in> {Str (ascii ''positive''), Str (ascii ''negative''), Str (ascii ''neutral'')}"
  unfolding assms
  using getTextSentiment_label[of toLowerCase "detailsContent doc"]
  by (simp add: detailedArticle_fields detailedArticle_has_sentiment detailedArticle_no_error)

lemma degraded_kind:
  assumes "r = degradedArticle article e parsedAt"
  shows "has_key r (ascii ''error'') \<and> \<not> has_key r (ascii ''sentiment'')
     \<and> \<not> truthy (obj_get r (ascii ''sentiment''))"
  unfolding assms
  by (simp add: degradedArticle_fields degradedArticle_has_error degradedArticle_no_sentiment)

lemma sentimentCount_sum:
  assumes "\<forall>r \<in> set recs.
     (\<not> has_key r (ascii ''error'') \<and> truthy (obj_get r (ascii ''sentiment''))
        \<and> get_prop (obj_get r (ascii ''sentiment'')) (ascii ''sentiment'')
             \<in> {Str (ascii ''positive''), Str (ascii ''negative''), Str (ascii ''neutral'')})
     \<or> (has_key r (ascii ''error'') \<and> \<not> truthy (obj_get r (ascii ''sentiment'')))"
  shows "sentimentCount recs (ascii ''positive'') + sentimentCount recs (ascii ''negative'')
           + sentimentCount recs (ascii ''neutral'')
         = int (length (filter (\<lambda>r. \<not> has_key r (ascii ''error'')) recs))"
  using assms
proof (induction recs)
  case Nil
  then show ?case by (simp add: sentimentCount_Nil)
next
  case (Cons r rs)
  have IH: "sentimentCount rs (ascii ''positive'') + sentimentCount rs (ascii ''negative'')
           + sentimentCount rs (ascii ''neutral'')
         = int (length (filter (\<lambda>r. \<not> has_key r (ascii ''error'')) rs))"
    using Cons by simp
  from Cons.prems have
    "(\<not> has_key r (ascii ''error'') \<and> truthy (obj_get r (ascii ''sentiment''))
        \<and> get_prop (obj_get r (ascii ''sentiment'')) (ascii ''sentiment'')
             \<in> {Str (ascii ''positive''), Str (ascii ''negative''), Str (ascii ''neutral'')})
     \<or> (has_key r (ascii ''error'') \<and> \<not> truthy (obj_get r (ascii ''sentiment'')))"
    by simp
  then show ?case
  proof
    assume a: "\<not> has_key r (ascii ''error'') \<and> truthy (obj_get r (ascii ''sentiment''))
        \<and> get_prop (obj_get r (ascii ''sentiment'')) (ascii ''sentiment'')
             \<in> {Str (ascii ''positive''), Str (ascii ''negative''), Str (ascii ''neutral'')}"
    then consider
        "get_prop (obj_get r (ascii ''sentiment'')) (ascii ''sentiment'') = Str (ascii ''positive'')"
      | "get_prop (obj_get r (ascii ''sentiment'')) (ascii ''sentiment'') = Str (ascii ''negative'')"
      | "get_prop (obj_get r (ascii ''sentiment'')) (ascii ''sentiment'') = Str (ascii ''neutral'')"
      by blast
    then show ?thesis
      using a IH labels_distinct by cases (simp_all add: sentimentCount_Cons)
  next
    assume "has_key r (ascii ''error'') \<and> \<not> truthy (obj_get r (ascii ''sentiment''))"
    then show ?thesis using IH by (simp add: sentimentCount_Cons)
  qed
qed

lemma parseRBCWebsite_kinds:
  assumes run: "parseRBCWebsite toLowerCase env n = Some (Inr recs)" and r: "r \<in> set recs"
  shows "(\<exists>article doc t. r = detailedArticle toLowerCase article doc t)
       \<or> (\<exists>article e t. r = degradedArticle article e t)"
proof -
  from r obtain i where i: "i < length recs" "recs ! i = r" by (auto simp: in_set_conv_nth)
  then have "recs \<noteq> []" by auto
  then have "parseRBC_try toLowerCase env n = Some (Inr recs)"
    using parseRBCWebsite_records[OF run] by simp
  then obtain els where els: "listing_result env = Inr els"
    using parseRBC_try_records by blast
  from parseRBCWebsite_nth[OF run els i(1)]
  have "processArticle toLowerCase (pages env i) (limitedArticles n els ! i) = Inr r"
    using i(2) by simp
  from processArticle_cases[OF this] show ?thesis by blast
qed


lemma record_kinds:
  assumes "(\<exists>article doc t. r = detailedArticle toLowerCase article doc t)
       \<or> (\<exists>article e t. r = degradedArticle article e t)"
  shows "(has_key r (ascii ''sentiment'') \<and> \<not> has_key r (ascii ''error'')
          \<and> truthy (obj_get r (ascii ''sentiment''))
          \<and> get_prop (obj_get r (ascii ''sentiment'')) (ascii ''sentiment'')
               \<in> {Str (ascii ''positive''), Str (ascii ''negative''), Str (ascii ''neutral'')})
       \<or> (has_key r (ascii ''error'') \<and> \<not> has_key r (ascii ''sentiment'')
          \<and> \<not> truthy (obj_get r (ascii ''sentiment'')))"
  using assms
proof
  assume "\<exists>article doc t. r = detailedArticle toLowerCase article doc t"
  then obtain article doc t where "r = detailedArticle toLowerCase article doc t" by blast
  from detailed_kind[OF this] show ?thesis by (rule disjI1)
next
  assume "\<exists>article e t. r = degradedArticle article e t"
  then obtain article e t where "r = degradedArticle article e t" by blast
  from degraded_kind[OF this] show ?thesis by (rule disjI2)
qed

text \<open>
  C10. Every record of a run either has a \<open>sentiment\<close> object, with one of the three
  labels, and no \<open>error\<close> field, or has an \<open>error\<close> field and no \<open>sentiment\<close>; so
  the three sentiment counts add up to the number of records without \<open>error\<close>, which
  is at most \<open>totalArticles\<close> and less when a record is degraded. A task resolves to a
  record with \<open>sentiment\<close> exactly when the record has no \<open>error\<close>.
\<close>

theorem sentiment_only_on_success:
  "(parseRBCWebsite toLowerCase env n = Some (Inr recs) \<longrightarrow>
      (\<forall>r \<in> set recs.
          (has_key r (ascii ''sentiment'') \<and> \<not> has_key r (ascii ''error'')
            \<and> truthy (obj_get r (ascii ''sentiment''))
            \<and> get_prop (obj_get r (ascii ''sentiment'')) (ascii ''sentiment'')
                 \<in> {Str (ascii ''positive''), Str (ascii ''negative''), Str (ascii ''neutral'')})
        \<or> (has_key r (ascii ''error'') \<and> \<not> has_key r (ascii ''sentiment'')
            \<and> \<not> truthy (obj_get r (ascii ''sentiment''))))
      \<and> sentimentCount recs (ascii ''positive'') + sentimentCount recs (ascii ''negative'')
           + sentimentCount recs (ascii ''neutral'')
         = int (length (filter (\<lambda>r. \<not> has_key r (ascii ''error'')) recs))
      \<and> sentimentCount recs (ascii ''positive'') + sentimentCount recs (ascii ''negative'')
           + sentimentCount recs (ascii ''neutral'')
         \<le> totalArticles recs
      \<and> sentimentStats recs =
          [(ascii ''positive'', Num (sentimentCount recs (ascii ''positive''))),
           (ascii ''negative'', Num (sentimentCount recs (ascii ''negative''))),
           (ascii ''neutral'', Num (sentimentCount recs (ascii ''neutral'')))])
   \<and> (processArticle toLowerCase penv article = Inr r \<longrightarrow>
        (has_key r (ascii ''sentiment'') \<longleftrightarrow> \<not> has_key r (ascii ''error'')))"
proof (intro conjI impI)
  assume run: "parseRBCWebsite toLowerCase env n = Some (Inr recs)"
  show kinds: "\<forall>r \<in> set recs.
          (has_key r (ascii ''sentiment'') \<and> \<not> has_key r (ascii ''error'')
            \<and> truthy (obj_get r (ascii ''sentiment''))
            \<and> get_prop (obj_get r (ascii ''sentiment'')) (ascii ''sentiment'')
                 \<in> {Str (ascii ''positive''), Str (ascii ''negative''), Str (ascii ''neutral'')})
        \<or> (has_key r (ascii ''error'') \<and> \<not> has_key r (ascii ''sentiment'')
            \<and> \<not> truthy (obj_get r (ascii ''sentiment'')))"
  proof
    fix r assume "r \<in> set recs"
    from record_kinds[OF parseRBCWebsite_kinds[OF run this]]
    show "(has_key r (ascii ''sentiment'') \<and> \<not> has_key r (ascii ''error'')
            \<and> truthy (obj_get r (ascii ''sentiment''))
            \<and> get_prop (obj_get r (ascii ''sentiment'')) (ascii ''sentiment'')
                 \<in> {Str (ascii ''positive''), Str (ascii ''negative''), Str (ascii ''neutral'')})
        \<or> (has_key r (ascii ''error'') \<and> \<not> has_key r (ascii ''sentiment'')
            \<and> \<not> truthy (obj_get r (ascii ''sentiment'')))" .
  qed
  have weak: "\<forall>r \<in> set recs.
     (\<not> has_key r (ascii ''error'') \<and> truthy (obj_get r (ascii ''sentiment''))
        \<and> get_prop (obj_get r (ascii ''sentiment'')) (ascii ''sentiment'')
             \<in> {Str (ascii ''positive''), Str (ascii ''negative''), Str (ascii ''neutral'')})
     \<or> (has_key r (ascii ''error'') \<and> \<not> truthy (obj_get r (ascii ''sentiment'')))"
    using kinds by blast
  show sum: "sentimentCount recs (ascii ''positive'') + sentimentCount recs (ascii ''negative'')
           + sentimentCount recs (ascii ''neutral'')
         = int (length (filter (\<lambda>r. \<not> has_key r (ascii ''error'')) recs))"
    by (rule sentimentCount_sum[OF weak])
  have "length (filter (\<lambda>r. \<not> has_key r (ascii ''error'')) recs) \<le> length recs"
    by (rule length_filter_le)
  then show "sentimentCount recs (ascii ''positive'') + sentimentCount recs (ascii ''negative'')
           + sentimentCount recs (ascii ''neutral'')
         \<le> totalArticles recs"
    unfolding sum totalArticles_def by simp
  show "sentimentStats recs =
          [(ascii ''positive'', Num (sentimentCount recs (ascii ''positive''))),
           (ascii ''negative'', Num (sentimentCount recs (ascii ''negative''))),
           (ascii ''neutral'', Num (sentimentCount recs (ascii ''neutral'')))]"
    by (simp add: sentimentStats_def)
next
  assume "processArticle toLowerCase penv article = Inr r"
  from processArticle_cases[OF this]
  have "(\<exists>article doc t. r = detailedArticle toLowerCase article doc t)
       \<or> (\<exists>article e t. r = degradedArticle article e t)" by blast
  from record_kinds[OF this]
  show "has_key r (ascii ''sentiment'') \<longleftrightarrow> \<not> has_key r (ascii ''error'')" by blast
qed

text \<open>The theorem at the run with one degraded record: the counts add up to 1 of 2 articles.\<close>

theorem sentiment_only_on_success_witness:
  "parseRBCWebsite toLowerCase_cyr sample_site 10 =
     Some (Inr [degradedArticle \<lparr>title = ascii ''Second'', url = ascii ''https://www.rbc.ru/politics/1''\<rparr>
                  timeout_error (now down_page),
                detailedArticle toLowerCase_cyr
                  \<lparr>title = ascii ''Other'', url = ascii ''https://www.rbc.ru/society/2''\<rparr>
                  sample_document (now flaky_page)])
   \<and> sentimentCount
         [degradedArticle \<lparr>title = ascii ''Second'', url = ascii ''https://www.rbc.ru/politics/1''\<rparr>
                  timeout_error (now down_page),
          detailedArticle toLowerCase_cyr
                  \<lparr>title = ascii ''Other'', url = ascii ''https://www.rbc.ru/society/2''\<rparr>
                  sample_document (now flaky_page)] (ascii ''positive'')
     + sentimentCount
         [degradedArticle \<lparr>title = ascii ''Second'', url = ascii ''https://www.rbc.ru/politics/1''\<rparr>
                  timeout_error (now down_page),
          detailedArticle toLowerCase_cyr
                  \<lparr>title = ascii ''Other'', url = ascii ''https://www.rbc.ru/society/2''\<rparr>
                  sample_document (now flaky_page)] (ascii ''negative'')
     + sentimentCount
         [degradedArticle \<lparr>title = ascii ''Second'', url = ascii ''https://www.rbc.ru/politics/1''\<rparr>
                  timeout_error (now down_page),
          detailedArticle toLowerCase_cyr
                  \<lparr>title = ascii ''Other'', url = ascii ''https://www.rbc.ru/society/2''\<rparr>
                  sample_document (now flaky_page)] (ascii ''neutral'') = 1
   \<and> totalArticles
         [degradedArticle \<lparr>title = ascii ''Second'', url = ascii ''https://www.rbc.ru/politics/1''\<rparr>
                  timeout_error (now down_page),
          detailedArticle toLowerCase_cyr
                  \<lparr>title = ascii ''Other'', url = ascii ''https://www.rbc.ru/society/2''\<rparr>
                  sample_document (now flaky_page)] = 2
   \<and> processArticle toLowerCase_cyr flaky_page sample_stub
       = Inr (detailedArticle toLowerCase_cyr sample_stub sample_document (now flaky_page))
   \<and> has_key (detailedArticle toLowerCase_cyr sample_stub sample_document (now flaky_page))
        (ascii ''sentiment'')"
proof -
  let ?d = "degradedArticle \<lparr>title = ascii ''Second'', url = ascii ''https://www.rbc.ru/politics/1''\<rparr>
                  timeout_error (now down_page)"
  let ?s = "detailedArticle toLowerCase_cyr
                  \<lparr>title = ascii ''Other'', url = ascii ''https://www.rbc.ru/society/2''\<rparr>
                  sample_document (now flaky_page)"
  let ?t = "detailedArticle toLowerCase_cyr sample_stub sample_document (now flaky_page)"
  note T = sentiment_only_on_success[where env = sample_site and toLowerCase = toLowerCase_cyr
      and n = 10 and recs = "[?d, ?s]" and penv = flaky_page and article = sample_stub and r = ?t]
  note A = mp[OF T[THEN conjunct1] sample_site_run]
  have "sentimentCount [?d, ?s] (ascii ''positive'') + sentimentCount [?d, ?s] (ascii ''negative'')
           + sentimentCount [?d, ?s] (ascii ''neutral'')
         = int (length (filter (\<lambda>r. \<not> has_key r (ascii ''error'')) [?d, ?s]))"
    using A by (elim conjE)
  then have s1: "sentimentCount [?d, ?s] (ascii ''positive'') + sentimentCount [?d, ?s] (ascii ''negative'')
           + sentimentCount [?d, ?s] (ascii ''neutral'') = 1"
    by (simp add: degradedArticle_has_error detailedArticle_no_error)
  have s2: "totalArticles [?d, ?s] = 2" by (simp add: totalArticles_def)
  have p: "processArticle toLowerCase_cyr flaky_page sample_stub = Inr ?t"
    by (rule processArticle_success[of flaky_page 3]) (simp_all add: flaky_page_def)
  note B = mp[OF T[THEN conjunct2] p]
  have s3: "has_key ?t (ascii ''sentiment'')"
    using B detailedArticle_no_error by blast
  show ?thesis
    by (intro conjI) (rule sample_site_run, rule s1, rule s2, rule p, rule s3)
qed

subsection \<open>The serializers\<close>

lemma foldl_foldl_concat: "foldl (foldl f) a xss = foldl f a (concat xss)"
  by (induction xss arbitrary: a) auto

lemma allKeys_first_seen: "allKeys data = first_seen (concat (map obj_keys data))"
proof -
  have "allKeys data = foldl (foldl Set_add) [] (map obj_keys data)"
    by (simp add: allKeys_def foldl_map)
  then show ?thesis by (simp add: foldl_foldl_concat foldl_Set_add)
qed

lemma allKeys_distinct: "distinct (allKeys data)"
  by (simp add: allKeys_first_seen first_seen_distinct)

lemma allKeys_set: "set (allKeys data) = (\<Union>item \<in> set data. set (obj_keys item))"
  by (simp add: allKeys_first_seen first_seen_set)

lemma obj_get_missing: "\<not> has_key item k \<Longrightarrow> obj_get item k = Undefined"
  by (induction item) (auto simp: has_key_def obj_keys_def)

lemma obj_read_own: "has_key item k \<Longrightarrow> obj_read item k = obj_get item k"
  by (simp add: obj_read_def)

lemma obj_read_missing:
  "\<not> has_key item k \<Longrightarrow> \<not> has_key Object_prototype k \<Longrightarrow> obj_read item k = Undefined"
  by (simp add: obj_read_def obj_get_missing)

lemma csv_cell_missing:
  "\<not> has_key item header \<Longrightarrow> \<not> has_key Object_prototype header \<Longrightarrow>
     csv_cell stringify String (obj_read item header) = [0x22, 0x22]"
  by (simp add: obj_read_missing csv_cell_def)

lemma content_not_inherited: "\<not> has_key Object_prototype (ascii ''content'')"
  by (simp add: has_key_def obj_keys_def Object_prototype_def ascii_def)

lemma record_keys_not_inherited:
  assumes "has_key (detailedArticle toLowerCase article doc parsedAt) key
           \<or> has_key (degradedArticle article thrown parsedAt) key"
  shows "\<not> has_key Object_prototype key"
proof -
  have "key \<in> set (map ascii [''title'', ''url'', ''content'', ''author'', ''tags'', ''publishedAt'',
                ''imageUrl'', ''hasVideo'', ''category'', ''sentiment'', ''parsedAt'', ''error''])"
    using assms unfolding has_key_def detailedArticle_keys degradedArticle_keys by auto
  then show ?thesis
    by (auto simp: has_key_def obj_keys_def Object_prototype_def ascii_def)
qed

lemma saveToCsv_content:
  "data \<noteq> [] \<Longrightarrow>
     files (saveToCsv stringify String data filename w) filename =
       Some (0xFEFF # join [0x0A] (join (ascii '','') (allKeys data)
                                   # map (csv_row stringify String (allKeys data)) data))"
  by (simp add: saveToCsv_def console_out_def writeFileSync_def csvContent_def Let_def)

lemma meduza_saveToCsv_content:
  "files (meduza_saveToCsv String (first # rest) filename w) filename =
       Some (join [0x0A] (join (ascii '','') (obj_keys first)
                          # map (meduza_csv_row String) (first # rest)))"
  by (simp add: meduza_saveToCsv_def console_out_def writeFileSync_def Let_def)

lemma mixed_keys: "allKeys mixed_records = [ascii ''title'', ascii ''url'', ascii ''content'']"
  by (simp add: allKeys_def mixed_records_def obj_keys_def Set_add_def ascii_def)

lemma mixed_not_sorted: "\<not> sorted (allKeys mixed_records)"
  unfolding mixed_keys by (simp add: ascii_def)


lemma mixed_csv:
  \<open>csvContent stringify String_model mixed_records =
     join [0x0A] [ascii ''title,url,content'', ascii ''"A","u",""'', ascii ''"B","","c"'']\<close>
  by (simp add: csvContent_def mixed_keys Let_def)
     (simp add: mixed_records_def csv_row_def csv_cell_def obj_read_def has_key_def obj_keys_def
        Object_prototype_def quoted_def double_quotes_def ascii_def)

lemma mixed_csv_meduza:
  \<open>files (meduza_saveToCsv String_model mixed_records (ascii ''meduza.csv'') empty_io) (ascii ''meduza.csv'') =
     Some (join [0x0A] [ascii ''title,url'', ascii ''"A","u"'', ascii ''"B","c"''])\<close>
  by (simp add: mixed_records_def meduza_saveToCsv_def console_out_def writeFileSync_def Let_def
        meduza_csv_row_def meduza_csv_cell_def obj_keys_def obj_values_def quoted_def
        double_quotes_def ascii_def)

text \<open>
  C2, as the code has it. The header of the RBC parser's CSV is the union of the keys of
  all records in the order in which they are first seen, not sorted; every key of a
  record is in it exactly once. The file is the byte-order mark, the header, and one row
  per record with one cell per header, the cell of the value read from the record under
  that header: the record's own value when it has the key, and, when it does not and
  the header is no property name of \<open>Object.prototype\<close>, \<open>undefined\<close>, whose cell is
  the empty quoted string. (A header such as \<open>constructor\<close> reads the inherited
  function in a record without that key.) No key of the two kinds of record that the
  parser builds is a property name of \<open>Object.prototype\<close>. The Meduza parser's CSV has
  the keys of the first record as its header and, in each row, one cell per value of
  that record.
\<close>

theorem csv_header_union:
  "allKeys data = first_seen (concat (map obj_keys data))
   \<and> distinct (allKeys data)
   \<and> set (allKeys data) = (\<Union>item \<in> set data. set (obj_keys item))
   \<and> (data \<noteq> [] \<longrightarrow>
        files (saveToCsv stringify String data filename w) filename =
          Some (0xFEFF # join [0x0A] (join (ascii '','') (allKeys data)
                                      # map (csv_row stringify String (allKeys data)) data)))
   \<and> csv_row stringify String headers item =
        join (ascii '','') (map (\<lambda>header. csv_cell stringify String (obj_read item header)) headers)
   \<and> (has_key item present \<longrightarrow> obj_read item present = obj_get item present)
   \<and> (\<not> has_key item header \<and> \<not> has_key Object_prototype header \<longrightarrow>
        csv_cell stringify String (obj_read item header) = [0x22, 0x22])
   \<and> (has_key (detailedArticle toLowerCase article doc parsedAt) key
        \<or> has_key (degradedArticle article thrown parsedAt) key \<longrightarrow>
        \<not> has_key Object_prototype key)
   \<and> files (meduza_saveToCsv String (first # rest) filename w) filename =
        Some (join [0x0A] (join (ascii '','') (obj_keys first)
                           # map (meduza_csv_row String) (first # rest)))
   \<and> meduza_csv_row String item =
        join (ascii '','') (map (meduza_csv_cell String) (obj_values item))"
proof (intro conjI impI)
  show "allKeys data = first_seen (concat (map obj_keys data))" by (rule allKeys_first_seen)
  show "distinct (allKeys data)" by (rule allKeys_distinct)
  show "set (allKeys data) = (\<Union>item \<in> set data. set (obj_keys item))" by (rule allKeys_set)
  show "csv_row stringify String headers item =
        join (ascii '','') (map (\<lambda>header. csv_cell stringify String (obj_read item header)) headers)"
    by (simp add: csv_row_def)
  show "files (meduza_saveToCsv String (first # rest) filename w) filename =
        Some (join [0x0A] (join (ascii '','') (obj_keys first)
                           # map (meduza_csv_row String) (first # rest)))"
    by (rule meduza_saveToCsv_content)
  show "meduza_csv_row String item =
        join (ascii '','') (map (meduza_csv_cell String) (obj_values item))"
    by (simp add: meduza_csv_row_def)
next
  assume "data \<noteq> []"
  then show "files (saveToCsv stringify String data filename w) filename =
          Some (0xFEFF # join [0x0A] (join (ascii '','') (allKeys data)
                                      # map (csv_row stringify String (allKeys data)) data))"
    by (rule saveToCsv_content)
next
  assume "has_key item present"
  then show "obj_read item present = obj_get item present" by (rule obj_read_own)
next
  assume "\<not> has_key item header \<and> \<not> has_key Object_prototype header"
  then show "csv_cell stringify String (obj_read item header) = [0x22, 0x22]"
    by (simp add: csv_cell_missing)
next
  assume "has_key (detailedArticle toLowerCase article doc parsedAt) key
        \<or> has_key (degradedArticle article thrown parsedAt) key"
  then show "\<not> has_key Object_prototype key" by (rule record_keys_not_inherited)
qed

text \<open>The theorem at two records with different keys.\<close>

theorem csv_header_union_witness:
  \<open>\<forall>stringify.
     mixed_records \<noteq> []
   \<and> files (saveToCsv stringify String_model mixed_records (ascii ''rbc.csv'') empty_io) (ascii ''rbc.csv'') =
       Some (0xFEFF # join [0x0A] [ascii ''title,url,content'', ascii ''"A","u",""'', ascii ''"B","","c"''])
   \<and> has_key (mixed_records ! 0) (ascii ''title'')
   \<and> obj_read (mixed_records ! 0) (ascii ''title'') = Str (ascii ''A'')
   \<and> \<not> has_key (mixed_records ! 0) (ascii ''content'')
   \<and> \<not> has_key Object_prototype (ascii ''content'')
   \<and> csv_cell stringify String_model (obj_read (mixed_records ! 0) (ascii ''content'')) = [0x22, 0x22]
   \<and> has_key (detailedArticle toLowerCase_cyr sample_stub sample_document []) (ascii ''sentiment'')
   \<and> \<not> has_key Object_prototype (ascii ''sentiment'')\<close>
proof
  fix stringify
  note T = csv_header_union[where data = mixed_records and stringify = stringify
      and String = String_model and filename = "ascii ''rbc.csv''" and w = empty_io
      and item = "mixed_records ! 0" and header = "ascii ''content''"
      and present = "ascii ''title''" and toLowerCase = toLowerCase_cyr and article = sample_stub
      and doc = sample_document and parsedAt = "[]" and key = "ascii ''sentiment''"]
  have sk: "has_key (detailedArticle toLowerCase_cyr sample_stub sample_document []) (ascii ''sentiment'')"
    unfolding has_key_def detailedArticle_keys by simp
  note S = mp[OF T[THEN conjunct2, THEN conjunct2, THEN conjunct2, THEN conjunct2, THEN conjunct2,
                   THEN conjunct2, THEN conjunct2, THEN conjunct1] disjI1[OF sk]]
  have ne: "mixed_records \<noteq> []" by (simp add: mixed_records_def)
  have hk: "has_key (mixed_records ! 0) (ascii ''title'')"
    by (simp add: mixed_records_def has_key_def obj_keys_def ascii_def)
  have mk: "\<not> has_key (mixed_records ! 0) (ascii ''content'')"
    by (simp add: mixed_records_def has_key_def obj_keys_def ascii_def)
  note np = content_not_inherited
  note A = mp[OF T[THEN conjunct2, THEN conjunct2, THEN conjunct2, THEN conjunct1] ne]
  note R = mp[OF T[THEN conjunct2, THEN conjunct2, THEN conjunct2, THEN conjunct2, THEN conjunct2,
                   THEN conjunct1] hk]
  note B = mp[OF T[THEN conjunct2, THEN conjunct2, THEN conjunct2, THEN conjunct2, THEN conjunct2,
                   THEN conjunct2, THEN conjunct1] conjI[OF mk np]]
  have A': \<open>files (saveToCsv stringify String_model mixed_records (ascii ''rbc.csv'') empty_io) (ascii ''rbc.csv'') =
       Some (0xFEFF # join [0x0A] [ascii ''title,url,content'', ascii ''"A","u",""'', ascii ''"B","","c"''])\<close>
    unfolding A using mixed_csv[of stringify] by (simp add: csvContent_def Let_def)
  have R': "obj_read (mixed_records ! 0) (ascii ''title'') = Str (ascii ''A'')"
    unfolding R by (simp add: mixed_records_def ascii_def)
  show \<open>mixed_records \<noteq> []
   \<and> files (saveToCsv stringify String_model mixed_records (ascii ''rbc.csv'') empty_io) (ascii ''rbc.csv'') =
       Some (0xFEFF # join [0x0A] [ascii ''title,url,content'', ascii ''"A","u",""'', ascii ''"B","","c"''])
   \<and> has_key (mixed_records ! 0) (ascii ''title'')
   \<and> obj_read (mixed_records ! 0) (ascii ''title'') = Str (ascii ''A'')
   \<and> \<not> has_key (mixed_records ! 0) (ascii ''content'')
   \<and> \<not> has_key Object_prototype (ascii ''content'')
   \<and> csv_cell stringify String_model (obj_read (mixed_records ! 0) (ascii ''content'')) = [0x22, 0x22]
   \<and> has_key (detailedArticle toLowerCase_cyr sample_stub sample_document []) (ascii ''sentiment'')
   \<and> \<not> has_key Object_prototype (ascii ''sentiment'')\<close>
    by (intro conjI) (rule ne, rule A', rule hk, rule R', rule mk, rule np, rule B, rule sk, rule S)
qed

text \<open>
  C2 as stated fails: the header of the RBC parser's CSV for those two records is
  \<open>title,url,content\<close>, which is not sorted, and the header of the Meduza parser's
  CSV is \<open>title,url\<close>, the keys of the first record only.
\<close>

theorem csv_header_sorted_counterexample:
  \<open>allKeys mixed_records = [ascii ''title'', ascii ''url'', ascii ''content'']
   \<and> \<not> sorted (allKeys mixed_records)
   \<and> files (meduza_saveToCsv String_model mixed_records (ascii ''meduza.csv'') empty_io) (ascii ''meduza.csv'') =
       Some (join [0x0A] [ascii ''title,url'', ascii ''"A","u"'', ascii ''"B","c"''])\<close>
  by (intro conjI) (rule mixed_keys, rule mixed_not_sorted, rule mixed_csv_meduza)

lemma saveArticles_files:
  "files (saveArticles stringify_pretty String (first # rest) w) =
     (files w)(ascii ''meduza_news_articles.json'' \<mapsto> stringify_pretty (Arr (map Obj (first # rest))),
               ascii ''meduza_news_articles.csv'' \<mapsto>
                 join [0x0A] (join (ascii '','') (obj_keys first)
                              # map (meduza_csv_row String) (first # rest)))"
  by (simp add: saveArticles_def meduza_saveToCsv_def meduza_saveToJson_def console_out_def
        writeFileSync_def Let_def)

lemma main_unsaved:
  assumes "files (main stringify_pretty String mainPage newsPage w) \<noteq> files w"
  shows "\<exists>articles. articles \<noteq> []
           \<and> (mainPage = Inr articles \<or> mainPage = Inr [] \<and> newsPage = Inr articles)
           \<and> main stringify_pretty String mainPage newsPage w =
               saveArticles stringify_pretty String articles
                 (if mainPage = Inr articles then w else console_out Not_found_main_page w)"
proof (cases mainPage)
  case (Inl error)
  then show ?thesis using assms by (simp add: main_def console_out_def)
next
  case main_page: (Inr mainPageArticles)
  show ?thesis
  proof (cases "mainPageArticles = []")
    case False
    show ?thesis
      by (rule exI[of _ mainPageArticles]) (use False main_page in \<open>simp add: main_def\<close>)
  next
    case True
    show ?thesis
    proof (cases newsPage)
      case (Inl error)
      then show ?thesis using assms main_page True by (simp add: main_def console_out_def)
    next
      case news_page: (Inr newsArticles)
      show ?thesis
      proof (cases "newsArticles = []")
        case False
        show ?thesis
          by (rule exI[of _ newsArticles])
             (use False main_page True news_page in \<open>simp add: main_def\<close>)
      next
        case empty: True
        then show ?thesis
          using assms main_page True news_page by (simp add: main_def console_out_def)
      qed
    qed
  qed
qed

text \<open>
  C8. With no records, \<open>saveToJson\<close> and \<open>saveToCsv\<close> of the RBC parser and
  \<open>saveToCsv\<close> of the Meduza parser report that there is no data and write no file.
  \<open>saveToJson\<close> of the Meduza parser has no check of its own; it is private to the
  script and \<open>main\<close> calls it, like \<open>saveToCsv\<close>, only with an array that has an
  element: when both pages give no article \<open>main\<close> writes no file and reports for each
  page that no article was found, and whenever \<open>main\<close> changes the files it has
  called the two serializers with a non-empty array.
\<close>

theorem serializers_on_empty_input:
  "saveToJson stringify_pretty [] filename w = console_out No_data_JSON w
   \<and> files (saveToJson stringify_pretty [] filename w) = files w
   \<and> saveToCsv stringify String [] filename w = console_out No_data_CSV w
   \<and> files (saveToCsv stringify String [] filename w) = files w
   \<and> meduza_saveToCsv String [] filename w = console_out No_data_CSV w
   \<and> files (meduza_saveToCsv String [] filename w) = files w
   \<and> files (main stringify_pretty String (Inr []) (Inr []) w) = files w
   \<and> console (main stringify_pretty String (Inr []) (Inr []) w) =
       console w @ [Not_found_main_page, Not_found_news_page]
   \<and> (files (main stringify_pretty String mainPage newsPage w) \<noteq> files w \<longrightarrow>
        (\<exists>articles. articles \<noteq> []
           \<and> (mainPage = Inr articles \<or> mainPage = Inr [] \<and> newsPage = Inr articles)
           \<and> main stringify_pretty String mainPage newsPage w =
               saveArticles stringify_pretty String articles
                 (if mainPage = Inr articles then w else console_out Not_found_main_page w)))
   \<and> saveArticles stringify_pretty String articles w =
       meduza_saveToCsv String articles (ascii ''meduza_news_articles.csv'')
         (meduza_saveToJson stringify_pretty articles (ascii ''meduza_news_articles.json'') w)"
proof (intro conjI impI)
  show "saveToJson stringify_pretty [] filename w = console_out No_data_JSON w"
    by (simp add: saveToJson_def)
  show "files (saveToJson stringify_pretty [] filename w) = files w"
    by (simp add: saveToJson_def console_out_def)
  show "saveToCsv stringify String [] filename w = console_out No_data_CSV w"
    by (simp add: saveToCsv_def)
  show "files (saveToCsv stringify String [] filename w) = files w"
    by (simp add: saveToCsv_def console_out_def)
  show "meduza_saveToCsv String [] filename w = console_out No_data_CSV w"
    by (simp add: meduza_saveToCsv_def)
  show "files (meduza_saveToCsv String [] filename w) = files w"
    by (simp add: meduza_saveToCsv_def console_out_def)
  show "files (main stringify_pretty String (Inr []) (Inr []) w) = files w"
    by (simp add: main_def console_out_def)
  show "console (main stringify_pretty String (Inr []) (Inr []) w) =
       console w @ [Not_found_main_page, Not_found_news_page]"
    by (simp add: main_def console_out_def)
  show "saveArticles stringify_pretty String articles w =
       meduza_saveToCsv String articles (ascii ''meduza_news_articles.csv'')
         (meduza_saveToJson stringify_pretty articles (ascii ''meduza_news_articles.json'') w)"
    by (simp add: saveArticles_def)
next
  assume "files (main stringify_pretty String mainPage newsPage w) \<noteq> files w"
  then show "\<exists>articles. articles \<noteq> []
           \<and> (mainPage = Inr articles \<or> mainPage = Inr [] \<and> newsPage = Inr articles)
           \<and> main stringify_pretty String mainPage newsPage w =
               saveArticles stringify_pretty String articles
                 (if mainPage = Inr articles then w else console_out Not_found_main_page w)"
    by (rule main_unsaved)
qed

text \<open>
  The theorem at a run of \<open>main\<close> whose main page gives no article and whose news page
  gives two: the files change, and the serializers were called with those two records.
\<close>

theorem serializers_on_empty_input_witness:
  "\<forall>stringify_pretty.
     files (main stringify_pretty String_model (Inr []) (Inr mixed_records) empty_io) \<noteq> files empty_io
   \<and> (\<exists>articles. articles \<noteq> []
         \<and> main stringify_pretty String_model (Inr []) (Inr mixed_records) empty_io =
             saveArticles stringify_pretty String_model articles
               (console_out Not_found_main_page empty_io))
   \<and> files (main stringify_pretty String_model (Inr []) (Inr []) empty_io) = files empty_io
   \<and> console (main stringify_pretty String_model (Inr []) (Inr []) empty_io) =
       [Not_found_main_page, Not_found_news_page]"
proof
  fix stringify_pretty :: "jsvalue \<Rightarrow> jsstring"
  note T = serializers_on_empty_input[where stringify_pretty = stringify_pretty
      and String = String_model and mainPage = "Inr []" and newsPage = "Inr mixed_records"
      and w = empty_io]
  have run: "main stringify_pretty String_model (Inr []) (Inr mixed_records) empty_io =
      saveArticles stringify_pretty String_model mixed_records
        (console_out Not_found_main_page empty_io)"
    by (simp add: main_def mixed_records_def)
  have "files (saveArticles stringify_pretty String_model mixed_records
                 (console_out Not_found_main_page empty_io)) (ascii ''meduza_news_articles.json'')
          \<noteq> files empty_io (ascii ''meduza_news_articles.json'')"
    unfolding mixed_records_def saveArticles_files
    by (simp add: empty_io_def console_out_def ascii_def)
  then have ch: "files (main stringify_pretty String_model (Inr []) (Inr mixed_records) empty_io)
      \<noteq> files empty_io"
    unfolding run by auto
  from mp[OF T[THEN conjunct2, THEN conjunct2, THEN conjunct2, THEN conjunct2, THEN conjunct2,
               THEN conjunct2, THEN conjunct2, THEN conjunct2, THEN conjunct1] ch]
  obtain articles where a: "articles \<noteq> []"
    "main stringify_pretty String_model (Inr []) (Inr mixed_records) empty_io =
       saveArticles stringify_pretty String_model articles
         (if (Inr [] :: jsvalue + jsobject list) = Inr articles then empty_io
          else console_out Not_found_main_page empty_io)"
    by blast
  have "(Inr [] :: jsvalue + jsobject list) \<noteq> Inr articles" using a(1) by auto
  then have a2: "main stringify_pretty String_model (Inr []) (Inr mixed_records) empty_io =
       saveArticles stringify_pretty String_model articles
         (console_out Not_found_main_page empty_io)"
    using a(2) by simp
  have ex: "\<exists>articles. articles \<noteq> []
         \<and> main stringify_pretty String_model (Inr []) (Inr mixed_records) empty_io =
             saveArticles stringify_pretty String_model articles
               (console_out Not_found_main_page empty_io)"
    using a(1) a2 by blast
  have f: "files (main stringify_pretty String_model (Inr []) (Inr []) empty_io) = files empty_io"
    by (rule T[THEN conjunct2, THEN conjunct2, THEN conjunct2, THEN conjunct2, THEN conjunct2,
               THEN conjunct2, THEN conjunct1])
  have c: "console (main stringify_pretty String_model (Inr []) (Inr []) empty_io) =
       [Not_found_main_page, Not_found_news_page]"
    using T[THEN conjunct2, THEN conjunct2, THEN conjunct2, THEN conjunct2, THEN conjunct2,
            THEN conjunct2, THEN conjunct2, THEN conjunct1]
    by (simp add: empty_io_def)
  show "files (main stringify_pretty String_model (Inr []) (Inr mixed_records) empty_io) \<noteq> files empty_io
   \<and> (\<exists>articles. articles \<noteq> []
         \<and> main stringify_pretty String_model (Inr []) (Inr mixed_records) empty_io =
             saveArticles stringify_pretty String_model articles
               (console_out Not_found_main_page empty_io))
   \<and> files (main stringify_pretty String_model (Inr []) (Inr []) empty_io) = files empty_io
   \<and> console (main stringify_pretty String_model (Inr []) (Inr []) empty_io) =
       [Not_found_main_page, Not_found_news_page]"
    by (intro conjI) (rule ch, rule ex, rule f, rule c)
qed

subsection \<open>The selector cascade\<close>

lemma trySelectors_first:
  "i < length sels \<Longrightarrow> query (sels ! i) \<noteq> [] \<Longrightarrow> \<forall>j<i. query (sels ! j) = [] \<Longrightarrow>
     trySelectors query sels = (query (sels ! i), take (Suc i) sels)"
proof (induction sels arbitrary: i)
  case Nil
  then show ?case by simp
next
  case (Cons s sels)
  show ?case
  proof (cases i)
    case 0
    then show ?thesis using Cons.prems by simp
  next
    case (Suc k)
    have "query s = []" using Cons.prems(3) Suc by auto
    moreover have "trySelectors query sels = (query (sels ! k), take (Suc k) sels)"
    proof (rule Cons.IH)
      show "k < length sels" using Cons.prems(1) Suc by simp
      show "query (sels ! k) \<noteq> []" using Cons.prems(2) Suc by simp
      show "\<forall>j<k. query (sels ! j) = []"
      proof (intro allI impI)
        fix j assume "j < k"
        then have "Suc j < i" using Suc by simp
        then have "query ((s # sels) ! Suc j) = []" using Cons.prems(3) by blast
        then show "query (sels ! j) = []" by simp
      qed
    qed
    ultimately show ?thesis using Suc by simp
  qed
qed

lemma trySelectors_none:
  "\<forall>s \<in> set sels. query s = [] \<Longrightarrow> trySelectors query sels = ([], sels)"
  by (induction sels) auto

lemma firstElement_first:
  "i < length sels \<Longrightarrow> query (sels ! i) = Some el \<Longrightarrow> \<forall>j<i. query (sels ! j) = None \<Longrightarrow>
     firstElement query sels = (Some el, take (Suc i) sels)"
proof (induction sels arbitrary: i)
  case Nil
  then show ?case by simp
next
  case (Cons s sels)
  show ?case
  proof (cases i)
    case 0
    then show ?thesis using Cons.prems by simp
  next
    case (Suc k)
    have "query s = None" using Cons.prems(3) Suc by auto
    moreover have "firstElement query sels = (Some el, take (Suc k) sels)"
    proof (rule Cons.IH)
      show "k < length sels" using Cons.prems(1) Suc by simp
      show "query (sels ! k) = Some el" using Cons.prems(2) Suc by simp
      show "\<forall>j<k. query (sels ! j) = None"
      proof (intro allI impI)
        fix j assume "j < k"
        then have "Suc j < i" using Suc by simp
        then have "query ((s # sels) ! Suc j) = None" using Cons.prems(3) by blast
        then show "query (sels ! j) = None" by simp
      qed
    qed
    ultimately show ?thesis using Suc by simp
  qed
qed

lemma firstElement_none:
  "\<forall>s \<in> set sels. query s = None \<Longrightarrow> firstElement query sels = (None, sels)"
  by (induction sels) auto

lemma fallbackArticles_first:
  "j < length containers \<Longrightarrow> containers ! j \<noteq> [] \<Longrightarrow> \<forall>l<j. containers ! l = [] \<Longrightarrow>
     fallbackArticles toLowerCase F containers = pushLinks toLowerCase F (map linkArticle (containers ! j))"
proof (induction containers arbitrary: j)
  case Nil
  then show ?case by simp
next
  case (Cons c containers)
  show ?case
  proof (cases j)
    case 0
    then show ?thesis using Cons.prems by simp
  next
    case (Suc k)
    have "c = []" using Cons.prems(3) Suc by auto
    moreover have "fallbackArticles toLowerCase F containers =
        pushLinks toLowerCase F (map linkArticle (containers ! k))"
    proof (rule Cons.IH)
      show "k < length containers" using Cons.prems(1) Suc by simp
      show "containers ! k \<noteq> []" using Cons.prems(2) Suc by simp
      show "\<forall>l<k. containers ! l = []"
      proof (intro allI impI)
        fix l assume "l < k"
        then have "Suc l < j" using Suc by simp
        then have "(c # containers) ! Suc l = []" using Cons.prems(3) by blast
        then show "containers ! l = []" by simp
      qed
    qed
    ultimately show ?thesis using Suc by simp
  qed
qed

lemma fallbackArticles_none:
  "\<forall>c \<in> set containers. c = [] \<Longrightarrow> fallbackArticles toLowerCase F containers = []"
  by (induction containers) auto

subsection \<open>The category filter\<close>

lemma foldl_push: "foldl (\<lambda>acc a. if P a then acc @ [a] else acc) acc xs = acc @ filter P xs"
  by (induction xs arbitrary: acc) auto

lemma pushLinks_filter:
  "pushLinks toLowerCase F built = filter (categoryMatches toLowerCase F) built"
  unfolding pushLinks_def by (subst foldl_push) simp

lemma pushElements_filter:
  "pushElements toLowerCase F built =
     filter (\<lambda>a. categoryMatches toLowerCase F a \<and> url a \<noteq> []) built"
  unfolding pushElements_def by (subst foldl_push) simp

lemma categoryMatches_iff:
  "categoryMatches toLowerCase F a \<longleftrightarrow>
     F = [] \<or> (\<exists>t \<in> set F. \<exists>p s. toLowerCase (category a) = p @ toLowerCase t @ s)"
  by (simp add: categoryMatches_def list_ex_iff str_includes_iff)


lemma extractArticles_first:
  assumes "i < length sels" "querySelectorAll doc (sels ! i) \<noteq> []"
    "\<forall>j<i. querySelectorAll doc (sels ! j) = []"
  shows "extractArticles toLowerCase sels doc F =
           pushElements toLowerCase F (map elementArticle (querySelectorAll doc (sels ! i)))"
  using trySelectors_first[OF assms] assms(2) by (simp add: extractArticles_def)

lemma extractArticles_fallback:
  assumes "\<forall>s \<in> set sels. querySelectorAll doc s = []"
  shows "extractArticles toLowerCase sels doc F =
           fallbackArticles toLowerCase F (possibleContainers doc)"
  using trySelectors_none[OF assms] by (simp add: extractArticles_def)

lemma meduzaDetails_no_content:
  assumes "\<forall>s \<in> set contentSelectors. querySelector mdoc s = None"
  shows "obj_get (meduzaDetails mdoc) (ascii ''content'') = Str []"
  using firstElement_none[OF assms] by (simp add: meduzaDetails_def)

lemma meduzaDetails_first_content:
  assumes "m < length contentSelectors" "querySelector mdoc (contentSelectors ! m) = Some t"
    "\<forall>j<m. querySelector mdoc (contentSelectors ! j) = None"
  shows "obj_get (meduzaDetails mdoc) (ascii ''content'') = Str (trim t)"
  using firstElement_first[OF assms] by (simp add: meduzaDetails_def)

lemma three_cards_articles:
  "pushElements toLowerCase_cyr [] (map elementArticle (querySelectorAll three_cards ''.NewsCard'')) =
     [\<lparr>title = ascii ''One'', url = ascii ''https://meduza.io/news/1'', category = Novosti,
       date = Some [], imageUrl = [], summary = Some []\<rparr>,
      \<lparr>title = ascii ''Two'', url = ascii ''https://meduza.io/news/2'', category = Novosti,
       date = Some [], imageUrl = [], summary = Some []\<rparr>,
      \<lparr>title = ascii ''Three'', url = ascii ''https://meduza.io/news/3'', category = Novosti,
       date = Some [], imageUrl = [], summary = Some []\<rparr>]"
  by (simp add: pushElements_filter categoryMatches_def three_cards_def news_card_def
        elementArticle_def meduza_url_def image_url_def trim_def isWhiteSpace_def ascii_def)

lemma three_cards_third_selector:
  "2 < length selectors \<and> querySelectorAll three_cards (selectors ! 2) \<noteq> []
   \<and> (\<forall>j<2. querySelectorAll three_cards (selectors ! j) = [])"
proof (intro conjI allI impI)
  show "2 < length selectors" by (simp add: selectors_def)
  show "querySelectorAll three_cards (selectors ! 2) \<noteq> []"
    by (simp add: selectors_def three_cards_def)
  fix j :: nat assume "j < 2"
  then have "j = 0 \<or> j = 1" by arith
  then show "querySelectorAll three_cards (selectors ! j) = []"
    by (auto simp: selectors_def three_cards_def)
qed

lemma sample_link_article:
  "pushLinks toLowerCase_cyr [] (map linkArticle [sample_link]) =
     [\<lparr>title = ascii ''Story'', url = ascii ''https://meduza.io/feature/7'', category = Novosti,
       date = None, imageUrl = [], summary = None\<rparr>]"
  by (simp add: pushLinks_filter categoryMatches_def sample_link_def linkArticle_def
        trim_def isWhiteSpace_def ascii_def)

text \<open>
  C7, as the code has it. The loop over the selectors of the listing returns the elements
  of the first selector, in the declared order, that matches any, and has queried
  exactly the selectors up to that one; the listing is then built from those elements
  alone. When no selector matches, the extraction falls back to the news links of the
  first container that holds any; when there is none either, the result is the empty
  list, an ordinary value. The content cascade of the article page takes the first
  selector that matches in the same way, and the content of the record is the trimmed
  text of that element; when no content selector matches there is no further attempt:
  the content is the empty string.
\<close>

theorem selector_cascade_first_match:
  "(i < length sels \<and> query (sels ! i) \<noteq> [] \<and> (\<forall>j<i. query (sels ! j) = []) \<longrightarrow>
      trySelectors query sels = (query (sels ! i), take (Suc i) sels))
   \<and> ((\<forall>s \<in> set sels. query s = []) \<longrightarrow> trySelectors query sels = ([], sels))
   \<and> (k < length lsels \<and> querySelectorAll doc (lsels ! k) \<noteq> []
        \<and> (\<forall>j<k. querySelectorAll doc (lsels ! j) = []) \<longrightarrow>
      extractArticles toLowerCase lsels doc F =
        pushElements toLowerCase F (map elementArticle (querySelectorAll doc (lsels ! k))))
   \<and> ((\<forall>s \<in> set lsels. querySelectorAll doc s = []) \<longrightarrow>
      extractArticles toLowerCase lsels doc F =
        fallbackArticles toLowerCase F (possibleContainers doc))
   \<and> (c < length containers \<and> containers ! c \<noteq> [] \<and> (\<forall>l<c. containers ! l = []) \<longrightarrow>
      fallbackArticles toLowerCase F containers =
        pushLinks toLowerCase F (map linkArticle (containers ! c)))
   \<and> ((\<forall>x \<in> set containers. x = []) \<longrightarrow> fallbackArticles toLowerCase F containers = [])
   \<and> (m < length csels \<and> q (csels ! m) = Some el \<and> (\<forall>j<m. q (csels ! j) = None) \<longrightarrow>
      firstElement q csels = (Some el, take (Suc m) csels))
   \<and> ((\<forall>s \<in> set csels. q s = None) \<longrightarrow> firstElement q csels = (None, csels))
   \<and> (d < length contentSelectors \<and> querySelector cdoc (contentSelectors ! d) = Some t
        \<and> (\<forall>j<d. querySelector cdoc (contentSelectors ! j) = None) \<longrightarrow>
      obj_get (meduzaDetails cdoc) (ascii ''content'') = Str (trim t))
   \<and> ((\<forall>s \<in> set contentSelectors. querySelector mdoc s = None) \<longrightarrow>
      obj_get (meduzaDetails mdoc) (ascii ''content'') = Str [])"
proof (intro conjI impI)
  assume "i < length sels \<and> query (sels ! i) \<noteq> [] \<and> (\<forall>j<i. query (sels ! j) = [])"
  then show "trySelectors query sels = (query (sels ! i), take (Suc i) sels)"
    using trySelectors_first[of i sels query] by blast
next
  assume "\<forall>s \<in> set sels. query s = []"
  then show "trySelectors query sels = ([], sels)" by (rule trySelectors_none)
next
  assume "k < length lsels \<and> querySelectorAll doc (lsels ! k) \<noteq> []
        \<and> (\<forall>j<k. querySelectorAll doc (lsels ! j) = [])"
  then show "extractArticles toLowerCase lsels doc F =
        pushElements toLowerCase F (map elementArticle (querySelectorAll doc (lsels ! k)))"
    using extractArticles_first[of k lsels doc toLowerCase F] by blast
next
  assume "\<forall>s \<in> set lsels. querySelectorAll doc s = []"
  then show "extractArticles toLowerCase lsels doc F =
        fallbackArticles toLowerCase F (possibleContainers doc)"
    by (rule extractArticles_fallback)
next
  assume "c < length containers \<and> containers ! c \<noteq> [] \<and> (\<forall>l<c. containers ! l = [])"
  then show "fallbackArticles toLowerCase F containers =
        pushLinks toLowerCase F (map linkArticle (containers ! c))"
    using fallbackArticles_first[of c containers toLowerCase F] by blast
next
  assume "\<forall>x \<in> set containers. x = []"
  then show "fallbackArticles toLowerCase F containers = []" by (rule fallbackArticles_none)
next
  assume "m < length csels \<and> q (csels ! m) = Some el \<and> (\<forall>j<m. q (csels ! j) = None)"
  then show "firstElement q csels = (Some el, take (Suc m) csels)"
    using firstElement_first[of m csels q el] by blast
next
  assume "\<forall>s \<in> set csels. q s = None"
  then show "firstElement q csels = (None, csels)" by (rule firstElement_none)
next
  assume "d < length contentSelectors \<and> querySelector cdoc (contentSelectors ! d) = Some t
        \<and> (\<forall>j<d. querySelector cdoc (contentSelectors ! j) = None)"
  then show "obj_get (meduzaDetails cdoc) (ascii ''content'') = Str (trim t)"
    using meduzaDetails_first_content[of d cdoc t] by blast
next
  assume "\<forall>s \<in> set contentSelectors. querySelector mdoc s = None"
  then show "obj_get (meduzaDetails mdoc) (ascii ''content'') = Str []"
    by (rule meduzaDetails_no_content)
qed


text \<open>
  The theorem at a listing in which the first two selectors match nothing and the third
  matches three cards (three stubs), at a listing where only the fallback finds a link,
  and at article pages with and without a content element.
\<close>

theorem selector_cascade_first_match_witness:
  "trySelectors (querySelectorAll three_cards) selectors =
     (querySelectorAll three_cards ''.NewsCard'', [''.NewsBlock-first'', ''.NewsBlock'', ''.NewsCard''])
   \<and> extractArticles toLowerCase_cyr selectors three_cards [] =
     [\<lparr>title = ascii ''One'', url = ascii ''https://meduza.io/news/1'', category = Novosti,
       date = Some [], imageUrl = [], summary = Some []\<rparr>,
      \<lparr>title = ascii ''Two'', url = ascii ''https://meduza.io/news/2'', category = Novosti,
       date = Some [], imageUrl = [], summary = Some []\<rparr>,
      \<lparr>title = ascii ''Three'', url = ascii ''https://meduza.io/news/3'', category = Novosti,
       date = Some [], imageUrl = [], summary = Some []\<rparr>]
   \<and> trySelectors (querySelectorAll fallback_listing) selectors = ([], selectors)
   \<and> extractArticles toLowerCase_cyr selectors fallback_listing [] =
     [\<lparr>title = ascii ''Story'', url = ascii ''https://meduza.io/feature/7'', category = Novosti,
       date = None, imageUrl = [], summary = None\<rparr>]
   \<and> fallbackArticles toLowerCase_cyr [] [[]] = []
   \<and> firstElement (querySelector rich_document) contentSelectors =
       (Some (ascii '' Body ''), [''.GeneralMaterial-article'', ''.RichBlock''])
   \<and> firstElement (querySelector bare_document) contentSelectors = (None, contentSelectors)
   \<and> obj_get (meduzaDetails rich_document) (ascii ''content'') = Str (ascii ''Body'')
   \<and> obj_get (meduzaDetails bare_document) (ascii ''content'') = Str []"
proof -
  note T1 = selector_cascade_first_match[where sels = selectors
      and query = "querySelectorAll three_cards" and i = 2
      and lsels = selectors and doc = three_cards and k = 2
      and toLowerCase = toLowerCase_cyr and F = "[]"
      and containers = "possibleContainers fallback_listing" and c = 1
      and csels = contentSelectors and q = "querySelector rich_document" and m = 1
      and el = "ascii '' Body ''" and mdoc = bare_document
      and cdoc = rich_document and d = 1 and t = "ascii '' Body ''"]
  note T2 = selector_cascade_first_match[where sels = selectors
      and query = "querySelectorAll fallback_listing"
      and lsels = selectors and doc = fallback_listing
      and toLowerCase = toLowerCase_cyr and F = "[]"
      and containers = "[[]]"
      and csels = contentSelectors and q = "querySelector bare_document"]
  note h1 = three_cards_third_selector
  have a: "trySelectors (querySelectorAll three_cards) selectors =
     (querySelectorAll three_cards ''.NewsCard'', [''.NewsBlock-first'', ''.NewsBlock'', ''.NewsCard''])"
    using mp[OF T1[THEN conjunct1] h1] by (simp add: selectors_def)
  have b: "extractArticles toLowerCase_cyr selectors three_cards [] =
     [\<lparr>title = ascii ''One'', url = ascii ''https://meduza.io/news/1'', category = Novosti,
       date = Some [], imageUrl = [], summary = Some []\<rparr>,
      \<lparr>title = ascii ''Two'', url = ascii ''https://meduza.io/news/2'', category = Novosti,
       date = Some [], imageUrl = [], summary = Some []\<rparr>,
      \<lparr>title = ascii ''Three'', url = ascii ''https://meduza.io/news/3'', category = Novosti,
       date = Some [], imageUrl = [], summary = Some []\<rparr>]"
    using mp[OF T1[THEN conjunct2, THEN conjunct2, THEN conjunct1] h1] three_cards_articles
    by (simp add: selectors_def)
  have h2: "\<forall>s \<in> set selectors. querySelectorAll fallback_listing s = []"
    by (simp add: fallback_listing_def)
  have c: "trySelectors (querySelectorAll fallback_listing) selectors = ([], selectors)"
    by (rule mp[OF T2[THEN conjunct2, THEN conjunct1] h2])
  have h3: "1 < length (possibleContainers fallback_listing) \<and>
      possibleContainers fallback_listing ! 1 \<noteq> [] \<and>
      (\<forall>l<1. possibleContainers fallback_listing ! l = [])"
    by (simp add: fallback_listing_def)
  have d1: "fallbackArticles toLowerCase_cyr [] (possibleContainers fallback_listing) =
        pushLinks toLowerCase_cyr [] (map linkArticle (possibleContainers fallback_listing ! 1))"
    by (rule mp[OF T1[THEN conjunct2, THEN conjunct2, THEN conjunct2, THEN conjunct2,
                        THEN conjunct1] h3])
  have d2: "extractArticles toLowerCase_cyr selectors fallback_listing [] =
        fallbackArticles toLowerCase_cyr [] (possibleContainers fallback_listing)"
    by (rule mp[OF T2[THEN conjunct2, THEN conjunct2, THEN conjunct2, THEN conjunct1] h2])
  have d: "extractArticles toLowerCase_cyr selectors fallback_listing [] =
     [\<lparr>title = ascii ''Story'', url = ascii ''https://meduza.io/feature/7'', category = Novosti,
       date = None, imageUrl = [], summary = None\<rparr>]"
    unfolding d2 d1 using sample_link_article by (simp add: fallback_listing_def)
  have h4: "\<forall>x \<in> set [[] :: news_link list]. x = []" by simp
  have e: "fallbackArticles toLowerCase_cyr [] [[]] = []"
    by (rule mp[OF T2[THEN conjunct2, THEN conjunct2, THEN conjunct2, THEN conjunct2,
                       THEN conjunct2, THEN conjunct1] h4])
  have h5: "1 < length contentSelectors \<and>
      querySelector rich_document (contentSelectors ! 1) = Some (ascii '' Body '') \<and>
      (\<forall>j<1. querySelector rich_document (contentSelectors ! j) = None)"
    by (simp add: contentSelectors_def rich_document_def)
  have f: "firstElement (querySelector rich_document) contentSelectors =
       (Some (ascii '' Body ''), [''.GeneralMaterial-article'', ''.RichBlock''])"
    using mp[OF T1[THEN conjunct2, THEN conjunct2, THEN conjunct2, THEN conjunct2,
                   THEN conjunct2, THEN conjunct2, THEN conjunct1] h5]
    by (simp add: contentSelectors_def)
  have h6: "\<forall>s \<in> set contentSelectors. querySelector bare_document s = None"
    by (simp add: bare_document_def)
  have g: "firstElement (querySelector bare_document) contentSelectors = (None, contentSelectors)"
    by (rule mp[OF T2[THEN conjunct2, THEN conjunct2, THEN conjunct2, THEN conjunct2,
                       THEN conjunct2, THEN conjunct2, THEN conjunct2, THEN conjunct1] h6])
  have tr: "trim (ascii '' Body '') = ascii ''Body''"
    by (simp add: trim_def isWhiteSpace_def ascii_def)
  have r: "obj_get (meduzaDetails rich_document) (ascii ''content'') = Str (ascii ''Body'')"
    using mp[OF T1[THEN conjunct2, THEN conjunct2, THEN conjunct2, THEN conjunct2,
                   THEN conjunct2, THEN conjunct2, THEN conjunct2, THEN conjunct2,
                   THEN conjunct1] h5]
    unfolding tr .
  have h: "obj_get (meduzaDetails bare_document) (ascii ''content'') = Str []"
    by (rule mp[OF T1[THEN conjunct2, THEN conjunct2, THEN conjunct2, THEN conjunct2,
                       THEN conjunct2, THEN conjunct2, THEN conjunct2, THEN conjunct2,
                       THEN conjunct2] h6])
  show ?thesis
    by (intro conjI) (rule a, rule b, rule c, rule d, rule e, rule f, rule g, rule r, rule h)
qed

text \<open>
  C7 as stated fails on the content cascade: on an article page where no content
  selector matches and a link matches the path patterns of the listing's fallback, the
  four content selectors are queried, nothing else is tried, and the content is empty.
\<close>

theorem content_cascade_no_fallback_counterexample:
  "querySelector links_only_document newsLinks = Some (ascii ''Story'')
   \<and> firstElement (querySelector links_only_document) contentSelectors = (None, contentSelectors)
   \<and> obj_get (meduzaDetails links_only_document) (ascii ''content'') = Str []"
  by (simp add: links_only_document_def newsLinks_def contentSelectors_def meduzaDetails_def)

subsection \<open>The category filter, continued\<close>

lemma filter_with_url:
  assumes "\<forall>a \<in> set built. url a \<noteq> []"
  shows "filter (\<lambda>a. P a \<and> url a \<noteq> []) built = filter P built"
  using assms by (intro filter_cong) simp_all

lemma linkArticle_url: "url (linkArticle link) \<noteq> []"
  by (simp add: linkArticle_def ascii_def)

text \<open>
  C9. The articles that the loops keep are the built articles, in order, whose
  lower-cased category contains a lower-cased filter term as a substring, or all of
  them when the filter is empty; the loop over matched elements also drops an article
  without address. So on articles that have an address both loops keep exactly the
  matching ones, and with the empty filter they keep every one unchanged; the articles
  of the fallback path always have an address.
\<close>

theorem category_filter_subset:
  "pushLinks toLowerCase F built =
     filter (\<lambda>a. F = [] \<or> (\<exists>t \<in> set F. \<exists>p s. toLowerCase (category a) = p @ toLowerCase t @ s)) built
   \<and> pushElements toLowerCase F built =
     filter (\<lambda>a. (F = [] \<or> (\<exists>t \<in> set F. \<exists>p s. toLowerCase (category a) = p @ toLowerCase t @ s))
                 \<and> url a \<noteq> []) built
   \<and> ((\<forall>a \<in> set built. url a \<noteq> []) \<longrightarrow>
        pushElements toLowerCase F built =
          filter (\<lambda>a. F = [] \<or> (\<exists>t \<in> set F. \<exists>p s. toLowerCase (category a) = p @ toLowerCase t @ s))
            built)
   \<and> pushLinks toLowerCase [] built = built
   \<and> ((\<forall>a \<in> set built. url a \<noteq> []) \<longrightarrow> pushElements toLowerCase [] built = built)
   \<and> url (linkArticle link) \<noteq> []"
proof (intro conjI impI)
  have M: "categoryMatches toLowerCase F =
      (\<lambda>a. F = [] \<or> (\<exists>t \<in> set F. \<exists>p s. toLowerCase (category a) = p @ toLowerCase t @ s))"
    by (rule ext) (rule categoryMatches_iff)
  show L: "pushLinks toLowerCase F built =
     filter (\<lambda>a. F = [] \<or> (\<exists>t \<in> set F. \<exists>p s. toLowerCase (category a) = p @ toLowerCase t @ s)) built"
    unfolding pushLinks_filter M ..
  show E: "pushElements toLowerCase F built =
     filter (\<lambda>a. (F = [] \<or> (\<exists>t \<in> set F. \<exists>p s. toLowerCase (category a) = p @ toLowerCase t @ s))
                 \<and> url a \<noteq> []) built"
    unfolding pushElements_filter categoryMatches_iff ..
  show "pushLinks toLowerCase [] built = built"
    by (simp add: pushLinks_filter categoryMatches_def)
  show "url (linkArticle link) \<noteq> []" by (rule linkArticle_url)
  {
    assume u: "\<forall>a \<in> set built. url a \<noteq> []"
    show "pushElements toLowerCase F built =
          filter (\<lambda>a. F = [] \<or> (\<exists>t \<in> set F. \<exists>p s. toLowerCase (category a) = p @ toLowerCase t @ s))
            built"
      unfolding E by (rule filter_with_url[OF u])
  }
  {
    assume u: "\<forall>a \<in> set built. url a \<noteq> []"
    have "pushElements toLowerCase [] built = filter (\<lambda>a. True \<and> url a \<noteq> []) built"
      by (simp add: pushElements_filter categoryMatches_def)
    also have "\<dots> = filter (\<lambda>a. True) built" by (rule filter_with_url[OF u])
    finally show "pushElements toLowerCase [] built = built" by simp
  }
qed

text \<open>The theorem at two articles, with a filter of two terms and with the empty filter.\<close>

theorem category_filter_subset_witness:
  "url politics_article \<noteq> [] \<and> url sport_article \<noteq> []
   \<and> pushElements toLowerCase_cyr [ascii ''SPORTS'', ascii ''polit''] [politics_article, sport_article]
       = [politics_article]
   \<and> pushElements toLowerCase_cyr [] [politics_article, sport_article]
       = [politics_article, sport_article]"
proof -
  note T = category_filter_subset[where built = "[politics_article, sport_article]"
      and toLowerCase = toLowerCase_cyr]
  have u: "\<forall>a \<in> set [politics_article, sport_article]. url a \<noteq> []"
    by (simp add: politics_article_def sport_article_def ascii_def)
  have m1: "str_includes (toLowerCase_cyr (category politics_article)) (toLowerCase_cyr (ascii ''polit''))"
    by (simp add: politics_article_def toLowerCase_cyr_def lower_unit_def ascii_def)
  have m2: "\<not> str_includes (toLowerCase_cyr (category sport_article)) (toLowerCase_cyr (ascii ''polit''))"
    "\<not> str_includes (toLowerCase_cyr (category sport_article)) (toLowerCase_cyr (ascii ''SPORTS''))"
    "\<not> str_includes (toLowerCase_cyr (category politics_article)) (toLowerCase_cyr (ascii ''SPORTS''))"
    by (simp_all add: politics_article_def sport_article_def toLowerCase_cyr_def lower_unit_def ascii_def)
  have "pushElements toLowerCase_cyr [ascii ''SPORTS'', ascii ''polit''] [politics_article, sport_article] =
      filter (\<lambda>a. [ascii ''SPORTS'', ascii ''polit''] = [] \<or>
                (\<exists>t \<in> set [ascii ''SPORTS'', ascii ''polit'']. \<exists>p s.
                    toLowerCase_cyr (category a) = p @ toLowerCase_cyr t @ s))
        [politics_article, sport_article]"
    by (rule mp[OF T[where F = "[ascii ''SPORTS'', ascii ''polit'']", THEN conjunct2, THEN conjunct2, THEN conjunct1] u])
  then have a: "pushElements toLowerCase_cyr [ascii ''SPORTS'', ascii ''polit''] [politics_article, sport_article]
       = [politics_article]"
    using m1 m2 by (simp add: str_includes_iff[symmetric])
  have b: "pushElements toLowerCase_cyr [] [politics_article, sport_article]
       = [politics_article, sport_article]"
    by (rule mp[OF T[where F = "[]", THEN conjunct2, THEN conjunct2, THEN conjunct2, THEN conjunct2,
                     THEN conjunct1] u])
  have u1: "url politics_article \<noteq> []" and u2: "url sport_article \<noteq> []"
    using u by simp_all
  show ?thesis by (intro conjI) (rule u1, rule u2, rule a, rule b)
qed

end
